theory Spec2Isabelle
  imports
    Complex_Main
    "HOL-Library.Log_Nat"
    "HOL-Library.Multiset"
    "HOL-Library.Char_ord"
    "HOL-Library.List_Lexorder"
    "HOL-Library.Product_Lexorder"
begin

section \<open>Python values: errors, indexing, strings\<close>

text \<open>
  The exceptions that the functions of \<^verbatim>\<open>FWHR_calculator.py\<close> can raise. A
  \<open>ValueError\<close> carries its message; \<open>OSError\<close> stands for the failures of
  the file system, the network and the image decoder (\<open>FileNotFoundError\<close>,
  \<open>URLError\<close> and \<open>UnidentifiedImageError\<close> are all subclasses of it).
\<close>

datatype py_error =
    IndexError
  | KeyError string
  | ZeroDivisionError
  | OverflowError
  | ValueError string
  | OSError

text \<open>Sequencing of computations that may raise: the first exception ends the run.\<close>

definition ebind :: "py_error + 'a \<Rightarrow> ('a \<Rightarrow> py_error + 'b) \<Rightarrow> py_error + 'b" where
  "ebind m f = (case m of Inl e \<Rightarrow> Inl e | Inr x \<Rightarrow> f x)"

text \<open>\<^verbatim>\<open>xs[i]\<close> for a literal index \<open>i \<ge> 0\<close>: out of range raises \<open>IndexError\<close>.\<close>

definition py_index :: "'a list \<Rightarrow> nat \<Rightarrow> py_error + 'a" where
  "py_index xs i = (if i < length xs then Inr (xs ! i) else Inl IndexError)"

text \<open>\<^verbatim>\<open>d[k]\<close> on a dictionary: a missing key raises \<open>KeyError\<close>.\<close>

definition py_getitem :: "(string \<rightharpoonup> 'v) \<Rightarrow> string \<Rightarrow> py_error + 'v" where
  "py_getitem d k = (case d k of None \<Rightarrow> Inl (KeyError k) | Some v \<Rightarrow> Inr v)"

text \<open>\<^verbatim>\<open>s[-3:]\<close>: the last three characters, or all of \<open>s\<close> when it is shorter.\<close>

definition last3 :: "string \<Rightarrow> string" where
  "last3 s = drop (length s - 3) s"

text \<open>\<^verbatim>\<open>s.endswith(t)\<close>.\<close>

definition endswith :: "string \<Rightarrow> string \<Rightarrow> bool" where
  "endswith s t = (length t \<le> length s \<and> drop (length s - length t) s = t)"

section \<open>Python floats: IEEE 754 binary64\<close>

text \<open>
  A Python \<open>float\<close> is a double: a finite value (a rational that has 53 significant
  bits), an infinity or a NaN. The sign of a zero is not kept: no operation used here
  can observe it (a division by either zero raises, and comparisons treat them alike).
\<close>

datatype pyfloat = Finite rat | PosInf | NegInf | NaN

definition pow2 :: "int \<Rightarrow> rat" where
  "pow2 k = 2 powi k"

text \<open>The binary exponent \<open>e\<close> of \<open>q \<noteq> 0\<close>: \<open>2\<^sup>e \<le> |q| < 2\<^sup>e\<^sup>+\<^sup>1\<close>.\<close>

definition ilog2 :: "rat \<Rightarrow> int" where
  "ilog2 q = (if 1 \<le> \<bar>q\<bar> then bitlen \<lfloor>\<bar>q\<bar>\<rfloor> - 1 else - bitlen (\<lceil>1 / \<bar>q\<bar>\<rceil> - 1))"

text \<open>Rounding to the nearest integer, a tie going to the even neighbour.\<close>

definition round_half_even :: "rat \<Rightarrow> int" where
  "round_half_even x =
     (let f = \<lfloor>x\<rfloor>; d = x - of_int f
      in if d < 1 / 2 then f
         else if 1 / 2 < d then f + 1
         else if even f then f else f + 1)"

text \<open>
  The spacing of the doubles around \<open>q\<close>: 52 fraction bits below the leading bit, and
  the fixed spacing of the subnormal numbers below \<open>2\<^sup>-\<^sup>1\<^sup>0\<^sup>2\<^sup>2\<close>.
\<close>

definition ulp :: "rat \<Rightarrow> rat" where
  "ulp q = pow2 (max (ilog2 q) (- 1022) - 52)"

text \<open>Round-to-nearest-even to a double, the exponent not yet bounded above.\<close>

definition round_double :: "rat \<Rightarrow> rat" where
  "round_double q = (if q = 0 then 0 else of_int (round_half_even (q / ulp q)) * ulp q)"

definition dbl_limit :: rat where
  "dbl_limit = 2 ^ 1024"

text \<open>The result of an IEEE operation whose exact value is \<open>q\<close>: overflow gives an infinity.\<close>

definition ieee_result :: "rat \<Rightarrow> pyfloat" where
  "ieee_result q =
     (let r = round_double q
      in if dbl_limit \<le> r then PosInf else if r \<le> - dbl_limit then NegInf else Finite r)"

text \<open>
  \<^verbatim>\<open>float(i)\<close>, also the implicit conversion of an \<open>int\<close> operand next to a
  \<open>float\<close>: correctly rounded, and \<open>OverflowError\<close> beyond the range of a double.
\<close>

definition py_float :: "int \<Rightarrow> py_error + pyfloat" where
  "py_float i =
     (let r = round_double (of_int i)
      in if dbl_limit \<le> \<bar>r\<bar> then Inl OverflowError else Inr (Finite r))"

text \<open>
  \<^verbatim>\<open>a / b\<close> on two \<open>int\<close>s: the correctly rounded quotient, \<open>ZeroDivisionError\<close>
  for \<open>b = 0\<close>, \<open>OverflowError\<close> when the quotient is too large for a double.
\<close>

definition int_truediv :: "int \<Rightarrow> int \<Rightarrow> py_error + pyfloat" where
  "int_truediv a b =
     (if b = 0 then Inl ZeroDivisionError
      else let r = round_double (of_int a / of_int b)
           in if dbl_limit \<le> \<bar>r\<bar> then Inl OverflowError else Inr (Finite r))"

definition is_zero :: "pyfloat \<Rightarrow> bool" where
  "is_zero x = (x = Finite 0)"

fun float_sign_neg :: "pyfloat \<Rightarrow> bool" where
  "float_sign_neg (Finite q) = (q < 0)"
| "float_sign_neg NegInf = True"
| "float_sign_neg _ = False"

text \<open>
  \<^verbatim>\<open>x / y\<close> on two \<open>float\<close>s: Python raises for a zero divisor, whatever the
  dividend; otherwise the IEEE quotient, which overflows to an infinity silently.
\<close>

fun ieee_div :: "pyfloat \<Rightarrow> pyfloat \<Rightarrow> pyfloat" where
  "ieee_div NaN _ = NaN"
| "ieee_div _ NaN = NaN"
| "ieee_div (Finite a) (Finite b) = ieee_result (a / b)"
| "ieee_div (Finite a) _ = Finite 0"
| "ieee_div x (Finite b) = (if float_sign_neg x = (b < 0) then PosInf else NegInf)"
| "ieee_div _ _ = NaN"

definition float_truediv :: "pyfloat \<Rightarrow> pyfloat \<Rightarrow> py_error + pyfloat" where
  "float_truediv x y = (if is_zero y then Inl ZeroDivisionError else Inr (ieee_div x y))"

text \<open>\<^verbatim>\<open>x - y\<close> on two \<open>float\<close>s.\<close>

fun float_sub :: "pyfloat \<Rightarrow> pyfloat \<Rightarrow> pyfloat" where
  "float_sub NaN _ = NaN"
| "float_sub _ NaN = NaN"
| "float_sub (Finite a) (Finite b) = ieee_result (a - b)"
| "float_sub (Finite a) PosInf = NegInf"
| "float_sub (Finite a) NegInf = PosInf"
| "float_sub PosInf PosInf = NaN"
| "float_sub NegInf NegInf = NaN"
| "float_sub PosInf _ = PosInf"
| "float_sub NegInf _ = NegInf"

text \<open>\<^verbatim>\<open>x > c\<close> for a \<open>float\<close> and an exact constant; a NaN compares false.\<close>

fun float_gt :: "pyfloat \<Rightarrow> rat \<Rightarrow> bool" where
  "float_gt (Finite q) c = (c < q)"
| "float_gt PosInf c = True"
| "float_gt NegInf c = False"
| "float_gt NaN c = False"

text \<open>Truncation towards zero.\<close>

definition trunc :: "rat \<Rightarrow> int" where
  "trunc q = (if 0 \<le> q then \<lfloor>q\<rfloor> else \<lceil>q\<rceil>)"

text \<open>\<^verbatim>\<open>int(x)\<close> on a \<open>float\<close>.\<close>

fun py_int :: "pyfloat \<Rightarrow> py_error + int" where
  "py_int (Finite q) = Inr (trunc q)"
| "py_int NaN = Inl (ValueError ''cannot convert float NaN to integer'')"
| "py_int _ = Inl OverflowError"

section \<open>Landmarks and the measurement box\<close>

type_synonym point = "int \<times> int"

type_synonym corners = "string \<rightharpoonup> point"

definition invalid_top_message :: string where
  \<open>invalid_top_message = ''Invalid top point, use either "eyebrow" or "eyelid"''\<close>

text \<open>
  \<^verbatim>\<open>get_face_points(points, method='average', top='eyebrow')\<close>, lines 55 to 89. The
  tuple \<open>coords\<close> is (left x, right x, top y, bottom y).
\<close>

definition get_face_points :: "point list \<Rightarrow> string \<Rightarrow> string \<Rightarrow> py_error + corners" where
  "get_face_points points method top' =
     ebind (py_index points 0) (\<lambda>width_left.
     ebind (py_index points 16) (\<lambda>width_right.
     ebind (if top' = ''eyebrow'' then
              ebind (py_index points 18) (\<lambda>tl.
              ebind (py_index points 25) (\<lambda>tr. Inr (tl, tr)))
            else if top' = ''eyelid'' then
              ebind (py_index points 37) (\<lambda>tl.
              ebind (py_index points 43) (\<lambda>tr. Inr (tl, tr)))
            else Inl (ValueError invalid_top_message)) (\<lambda>(top_left, top_right).
     ebind (py_index points 50) (\<lambda>bottom_left.
     ebind (py_index points 52) (\<lambda>bottom_right.
     ebind (if method = ''left'' then
              Inr (fst width_left, fst width_right, snd top_left, snd bottom_left)
            else if method = ''right'' then
              Inr (fst width_left, fst width_right, snd top_right, snd bottom_right)
            else
              ebind (int_truediv (snd top_left + snd top_right) 2) (\<lambda>ta.
              ebind (py_int ta) (\<lambda>top_average.
              ebind (int_truediv (snd bottom_left + snd bottom_right) 2) (\<lambda>ba.
              ebind (py_int ba) (\<lambda>bottom_average.
              Inr (fst width_left, fst width_right, top_average, bottom_average)))))) (\<lambda>coords.
     let coords = (case coords of (c0, c1, c2, c3) \<Rightarrow>
                     if top' = ''eyelid'' then (c0, c1, c2 - 4, c3) else (c0, c1, c2, c3))
     in case coords of (c0, c1, c2, c3) \<Rightarrow>
          Inr [''top_left'' \<mapsto> (c0, c2),
               ''bottom_left'' \<mapsto> (c0, c3),
               ''top_right'' \<mapsto> (c1, c2),
               ''bottom_right'' \<mapsto> (c1, c3)]))))))"

text \<open>
  The three raw values of \<^verbatim>\<open>good_picture_check\<close>, lines 104 to 117, in the order
  the source computes them: \<open>eye_dif\<close>, \<open>nose_dif\<close>, \<open>space_ratio\<close>.
\<close>

definition picture_values :: "point list \<Rightarrow> py_error + pyfloat \<times> pyfloat \<times> pyfloat" where
  "picture_values p =
     ebind (py_index p 16) (\<lambda>p16.
     ebind (py_index p 0) (\<lambda>p0.
     ebind (int_truediv (fst p16 - fst p0) 100) (\<lambda>width_im.
     ebind (py_index p 37) (\<lambda>p37.
     ebind (py_index p 41) (\<lambda>p41.
     ebind (py_float (snd p37 + snd p41)) (\<lambda>sum_l.
     ebind (float_truediv sum_l (Finite 2)) (\<lambda>eye_y_l.
     ebind (py_index p 44) (\<lambda>p44.
     ebind (py_index p 46) (\<lambda>p46.
     ebind (py_float (snd p44 + snd p46)) (\<lambda>sum_r.
     ebind (float_truediv sum_r (Finite 2)) (\<lambda>eye_y_r.
     ebind (float_truediv (float_sub eye_y_r eye_y_l) width_im) (\<lambda>eye_dif.
     ebind (py_index p 30) (\<lambda>p30.
     ebind (py_index p 27) (\<lambda>p27.
     ebind (py_float (fst p30 - fst p27)) (\<lambda>nose_delta.
     ebind (float_truediv nose_delta width_im) (\<lambda>nose_dif.
     ebind (py_index p 36) (\<lambda>p36.
     ebind (py_index p 0) (\<lambda>p0'.
     ebind (py_index p 16) (\<lambda>p16'.
     ebind (py_index p 45) (\<lambda>p45.
     ebind (int_truediv (fst p36 - fst p0') (fst p16' - fst p45)) (\<lambda>space_ratio.
     Inr (eye_dif, nose_dif, space_ratio))))))))))))))))))))))"

text \<open>
  \<^verbatim>\<open>good_picture_check(p, debug=False)\<close>: the verdict, and what \<open>debug\<close> prints
  (the three raw values, once) as the list of printed lines.
\<close>

definition good_picture_check ::
  "point list \<Rightarrow> bool \<Rightarrow> py_error + bool \<times> (pyfloat \<times> pyfloat \<times> pyfloat) list" where
  "good_picture_check p debug =
     ebind (picture_values p) (\<lambda>(eye_dif, nose_dif, space_ratio).
       let printed = (if debug then [(eye_dif, nose_dif, space_ratio)] else [])
       in if float_gt eye_dif 5 \<or> float_gt nose_dif (7 / 2) \<or> float_gt space_ratio 3
          then Inr (False, printed)
          else Inr (True, printed))"

text \<open>\<^verbatim>\<open>FWHR_calc(corners)\<close>, lines 138 to 140.\<close>

definition FWHR_calc :: "corners \<Rightarrow> py_error + pyfloat" where
  "FWHR_calc corners =
     ebind (py_getitem corners ''top_right'') (\<lambda>tr.
     ebind (py_getitem corners ''top_left'') (\<lambda>tl.
     let width = fst tr - fst tl in
     ebind (py_getitem corners ''bottom_left'') (\<lambda>bl.
     ebind (py_getitem corners ''top_left'') (\<lambda>tl'.
     let height = snd bl - snd tl' in
     ebind (py_float width) (\<lambda>fw.
     ebind (py_float height) (\<lambda>fh.
     float_truediv fw fh))))))"

section \<open>Images, files and the external libraries\<close>

text \<open>
  What lies outside the repository is a parameter of the model: what a URL serves
  (\<open>urllib\<close>), which bytes decode to an image (\<open>face_recognition.load_image_file\<close>),
  the landmark detector (one list of points per detected face) and the listing of a
  folder (\<open>os.listdir\<close>). \<open>None\<close> stands for a failure of the library.
\<close>

record ('b, 'img) externals =
  url_content :: "string \<rightharpoonup> 'b"
  decode_image :: "'b \<rightharpoonup> 'img"
  raw_face_landmarks :: "'img \<Rightarrow> point list list"
  listdir :: "string \<rightharpoonup> string list"

text \<open>
  A file holds image bytes or a table written by \<open>DataFrame.to_csv\<close>: the header and
  the rows (filename, ratio), a missing ratio being \<open>None\<close>.
\<close>

datatype 'b file_content =
    ImageData 'b
  | CsvTable "string list" "(string \<times> pyfloat option) list"

type_synonym 'b files = "string \<rightharpoonup> 'b file_content"

definition load_image_file ::
  "('b, 'img) externals \<Rightarrow> 'b files \<Rightarrow> string \<Rightarrow> py_error + 'img" where
  "load_image_file ext fs path =
     (case fs path of
        Some (ImageData b) \<Rightarrow>
          (case decode_image ext b of Some img \<Rightarrow> Inr img | None \<Rightarrow> Inl OSError)
      | _ \<Rightarrow> Inl OSError)"

definition urlretrieve ::
  "('b, 'img) externals \<Rightarrow> 'b files \<Rightarrow> string \<Rightarrow> string \<Rightarrow> (py_error + unit) \<times> 'b files" where
  "urlretrieve ext fs url filename =
     (case url_content ext url of
        None \<Rightarrow> (Inl OSError, fs)
      | Some b \<Rightarrow> (Inr (), fs(filename \<mapsto> ImageData b)))"

text \<open>\<^verbatim>\<open>load_image(path, url=False)\<close>, lines 24 to 34, with the three branches of the source.\<close>

definition load_image ::
  "('b, 'img) externals \<Rightarrow> 'b files \<Rightarrow> string \<Rightarrow> bool \<Rightarrow> (py_error + 'img) \<times> 'b files" where
  "load_image ext fs path url =
     (if \<not> url then (load_image_file ext fs path, fs)
      else if last3 path = ''jpg'' \<or> last3 path = ''png'' then
        (case urlretrieve ext fs path ''tmp.jpg'' of
           (Inl e, fs') \<Rightarrow> (Inl e, fs')
         | (Inr _, fs') \<Rightarrow> (load_image_file ext fs' ''tmp.jpg'', fs'))
      else if last3 path = ''png'' then
        (case urlretrieve ext fs path ''tmp.png'' of
           (Inl e, fs') \<Rightarrow> (Inl e, fs')
         | (Inr _, fs') \<Rightarrow> (load_image_file ext fs' ''tmp.png'', fs'))
      else (Inl (ValueError ''Unknown image type''), fs))"

text \<open>
  \<^verbatim>\<open>get_fwhr(image_path, url, show, method, top)\<close>, lines 183 to 201. What it prints
  and draws when \<open>show\<close> is set is not part of the model; it then returns \<open>None\<close>.
\<close>

definition get_fwhr ::
  "('b, 'img) externals \<Rightarrow> 'b files \<Rightarrow> string \<Rightarrow> bool \<Rightarrow> bool \<Rightarrow> string \<Rightarrow> string
     \<Rightarrow> (py_error + pyfloat option) \<times> 'b files" where
  "get_fwhr ext fs image_path url show method top' =
     (case load_image ext fs image_path url of
        (Inl e, fs') \<Rightarrow> (Inl e, fs')
      | (Inr img, fs') \<Rightarrow>
          (ebind (py_index (raw_face_landmarks ext img) 0) (\<lambda>landmarks_as_tuples.
           ebind (good_picture_check landmarks_as_tuples False) (\<lambda>(good, printed).
             if good then
               ebind (get_face_points landmarks_as_tuples method top') (\<lambda>corners.
               ebind (FWHR_calc corners) (\<lambda>fwh_ratio.
                 if show then Inr None else Inr (Some fwh_ratio)))
             else (if show then Inr None else Inr None))), fs'))"

definition is_image_name :: "string \<Rightarrow> bool" where
  "is_image_name filename = (endswith filename ''.jpg'' \<or> endswith filename ''.png'')"

text \<open>The loop of \<^verbatim>\<open>get_fwhr_bulk\<close>, lines 219 to 225: \<open>image_data\<close> grows by one row per image.\<close>

fun bulk_loop ::
  "('b, 'img) externals \<Rightarrow> 'b files \<Rightarrow> string \<Rightarrow> string list
     \<Rightarrow> (string \<times> pyfloat option) list
     \<Rightarrow> (py_error + (string \<times> pyfloat option) list) \<times> 'b files" where
  "bulk_loop ext fs folder_path [] image_data = (Inr image_data, fs)"
| "bulk_loop ext fs folder_path (filename # rest) image_data =
     (if is_image_name filename then
        (case get_fwhr ext fs (folder_path @ filename) False False ''average'' ''eyelid'' of
           (Inl e, fs') \<Rightarrow> (Inl e, fs')
         | (Inr fwh_ratio, fs') \<Rightarrow>
             bulk_loop ext fs' folder_path rest (image_data @ [(filename, fwh_ratio)]))
      else bulk_loop ext fs folder_path rest image_data)"

text \<open>
  \<open>DataFrame.sort_values\<close>: ascending, missing values last. The order pandas gives
  to rows with equal keys is not fixed; the model keeps them in their order.
\<close>

fun ratio_key :: "pyfloat option \<Rightarrow> nat \<times> rat" where
  "ratio_key (Some NegInf) = (0, 0)"
| "ratio_key (Some (Finite q)) = (1, q)"
| "ratio_key (Some PosInf) = (2, 0)"
| "ratio_key (Some NaN) = (3, 0)"
| "ratio_key None = (3, 0)"

definition sort_by_filename :: "(string \<times> pyfloat option) list \<Rightarrow> (string \<times> pyfloat option) list" where
  "sort_by_filename rows = sort_key fst rows"

definition sort_by_ratio :: "(string \<times> pyfloat option) list \<Rightarrow> (string \<times> pyfloat option) list" where
  "sort_by_ratio rows = sort_key (\<lambda>row. ratio_key (snd row)) rows"

definition invalid_sort_message :: "string \<Rightarrow> string" where
  "invalid_sort_message sort_by =
     ''Invalid value for 'sort_by': '' @ sort_by @ ''. Accepted values are 'filename' and 'ratio'.''"

definition csv_path :: "string \<Rightarrow> string" where
  "csv_path folder_path = folder_path @ ''fwhr_ratios.csv''"

definition to_csv :: "'b files \<Rightarrow> string \<Rightarrow> (string \<times> pyfloat option) list \<Rightarrow> 'b files" where
  "to_csv fs csv_file rows = fs(csv_file \<mapsto> CsvTable [''Filename'', ''Ratio''] rows)"

text \<open>\<^verbatim>\<open>get_fwhr_bulk(folder_path, sort_by='filename')\<close>, lines 215 to 241.\<close>

definition get_fwhr_bulk ::
  "('b, 'img) externals \<Rightarrow> 'b files \<Rightarrow> string \<Rightarrow> string \<Rightarrow> (py_error + unit) \<times> 'b files" where
  "get_fwhr_bulk ext fs folder_path sort_by =
     (case listdir ext folder_path of
        None \<Rightarrow> (Inl OSError, fs)
      | Some names \<Rightarrow>
          (case bulk_loop ext fs folder_path names [] of
             (Inl e, fs') \<Rightarrow> (Inl e, fs')
           | (Inr image_data, fs') \<Rightarrow>
               if sort_by = ''filename'' then
                 (Inr (), to_csv fs' (csv_path folder_path) (sort_by_filename image_data))
               else if sort_by = ''ratio'' then
                 (Inr (), to_csv fs' (csv_path folder_path) (sort_by_ratio image_data))
               else (Inl (ValueError (invalid_sort_message sort_by)), fs')))"

section \<open>The properties, as the specification words them\<close>

text \<open>The integer average of two integers, truncated towards zero.\<close>

definition truncating_average :: "int \<Rightarrow> int \<Rightarrow> int" where
  "truncating_average a b = (let s = a + b in if 0 \<le> s then s div 2 else - ((- s) div 2))"

text \<open>
  The value that \<open>method\<close> selects from the left and the right height: the left one,
  the right one, or their average as the source computes it.
\<close>

definition method_value :: "string \<Rightarrow> int \<Rightarrow> int \<Rightarrow> py_error + int" where
  "method_value method l r =
     (if method = ''left'' then Inr l
      else if method = ''right'' then Inr r
      else ebind (int_truediv (l + r) 2) py_int)"

text \<open>The box with the given left x, right x, top y and bottom y.\<close>

definition box :: "int \<Rightarrow> int \<Rightarrow> int \<Rightarrow> int \<Rightarrow> corners" where
  "box xl xr yt yb =
     [''top_left'' \<mapsto> (xl, yt), ''bottom_left'' \<mapsto> (xl, yb),
      ''top_right'' \<mapsto> (xr, yt), ''bottom_right'' \<mapsto> (xr, yb)]"

text \<open>
  The three heuristics of the quality gate as double-precision expressions, for a
  list of 68 points: the face width over 100, the eye-height difference, the nose tilt
  and the space ratio.
\<close>

definition double_of_int :: "int \<Rightarrow> pyfloat" where
  "double_of_int i = ieee_result (of_int i)"

definition face_width_scale :: "point list \<Rightarrow> pyfloat" where
  "face_width_scale p = ieee_result (of_int (fst (p ! 16) - fst (p ! 0)) / 100)"

definition eye_height_difference :: "point list \<Rightarrow> pyfloat" where
  "eye_height_difference p =
     ieee_div
       (float_sub
          (ieee_div (double_of_int (snd (p ! 44) + snd (p ! 46))) (Finite 2))
          (ieee_div (double_of_int (snd (p ! 37) + snd (p ! 41))) (Finite 2)))
       (face_width_scale p)"

definition nose_tilt :: "point list \<Rightarrow> pyfloat" where
  "nose_tilt p = ieee_div (double_of_int (fst (p ! 30) - fst (p ! 27))) (face_width_scale p)"

definition eye_space_ratio :: "point list \<Rightarrow> pyfloat" where
  "eye_space_ratio p =
     ieee_result (of_int (fst (p ! 36) - fst (p ! 0)) / of_int (fst (p ! 16) - fst (p ! 45)))"

text \<open>
  Coordinates as the landmark detector delivers them: machine integers (a C
  \<open>long\<close> of 64 bits), far inside the range of a double.
\<close>

definition in_long_range :: "int \<Rightarrow> bool" where
  "in_long_range c = (- (2 ^ 63) \<le> c \<and> c < 2 ^ 63)"

definition machine_coords :: "point list \<Rightarrow> bool" where
  "machine_coords p = list_all (\<lambda>(x, y). in_long_range x \<and> in_long_range y) p"

text \<open>
  The ratio that the batch records for one face: the quality gate first, then, on a
  pass, the ratio of the box under the fixed configuration \<open>method = 'average'\<close>,
  \<open>top = 'eyelid'\<close>; on a failure nothing.
\<close>

definition gate_ratio :: "point list \<Rightarrow> py_error + pyfloat option" where
  "gate_ratio lm =
     ebind (good_picture_check lm False) (\<lambda>(good, printed).
       if good then
         ebind (get_face_points lm ''average'' ''eyelid'') (\<lambda>corners.
         ebind (FWHR_calc corners) (\<lambda>ratio. Inr (Some ratio)))
       else Inr None)"

text \<open>
  The two points that \<open>top\<close> selects as the top reference (18 and 25 under the
  eyebrows, 37 and 43 on the eyelids) and the upward shift that goes with it.
\<close>

definition top_points :: "point list \<Rightarrow> string \<Rightarrow> point \<times> point" where
  "top_points p t = (if t = ''eyebrow'' then (p ! 18, p ! 25) else (p ! 37, p ! 43))"

definition top_shift :: "string \<Rightarrow> int" where
  "top_shift t = (if t = ''eyelid'' then 4 else 0)"

text \<open>
  A list of 68 landmarks used to run the functions on: a face 200 pixels wide whose
  three quality values sit exactly on their thresholds.
\<close>

definition sample_points :: "point list" where
  "sample_points = (replicate 68 (0, 0))
     [0 := (3, 1), 16 := (203, 2), 18 := (40, 80), 25 := (160, 83),
      27 := (100, 60), 30 := (107, 90), 36 := (33, 50), 37 := (50, 50),
      41 := (50, 50), 43 := (150, 21), 44 := (150, 60), 45 := (193, 55),
      46 := (150, 60), 50 := (90, 130), 52 := (110, 133)]"

text \<open>A small web with one image, to run \<^verbatim>\<open>load_image\<close> on.\<close>

definition sample_web :: "(nat, nat) externals" where
  "sample_web = \<lparr>url_content = [''http://host/face.png'' \<mapsto> 7],
                 decode_image = (\<lambda>b. Some (b + 1)),
                 raw_face_landmarks = (\<lambda>img. []),
                 listdir = Map.empty\<rparr>"

text \<open>
  A file system with two folders: \<open>imgs/\<close> holds an image that passes the quality
  gate, one that fails it and a text file; \<open>noface/\<close> holds an image without a face.
\<close>

definition sample_batch :: "(nat, nat) externals" where
  "sample_batch =
     \<lparr>url_content = Map.empty,
      decode_image = (\<lambda>b. Some b),
      raw_face_landmarks =
        (\<lambda>img. if img = 0 then []
               else if img = 1 then [sample_points]
               else [sample_points[30 := (108, 90)]]),
      listdir = [''imgs/'' \<mapsto> [''b.png'', ''notes.txt'', ''a.jpg''],
                 ''noface/'' \<mapsto> [''c.jpg'']]\<rparr>"

definition sample_files :: "nat files" where
  "sample_files =
     [''imgs/a.jpg'' \<mapsto> ImageData 1, ''imgs/b.png'' \<mapsto> ImageData 2,
      ''imgs/notes.txt'' \<mapsto> ImageData 0, ''noface/c.jpg'' \<mapsto> ImageData 0]"

section \<open>Facts about rounding to a double\<close>

lemma pow2_pos: "0 < pow2 k"
  by (simp add: pow2_def)

lemma pow2_add: "pow2 (a + b) = pow2 a * pow2 b"
  by (simp add: pow2_def power_int_add)

lemma pow2_diff: "pow2 (a - b) = pow2 a / pow2 b"
  by (simp add: pow2_def power_int_diff)

lemma pow2_mono: "a \<le> b \<Longrightarrow> pow2 a \<le> pow2 b"
  by (simp add: pow2_def power_int_increasing)

lemma pow2_nat: "0 \<le> k \<Longrightarrow> pow2 k = of_int (2 ^ nat k)"
  by (simp add: pow2_def power_int_nonneg_exp)

lemma pow2_numeral: "pow2 (numeral n) = 2 ^ numeral n"
  by (simp add: pow2_def)

lemma ilog2_bounds:
  assumes "q \<noteq> 0"
  shows "pow2 (ilog2 q) \<le> \<bar>q\<bar>" and "\<bar>q\<bar> < pow2 (ilog2 q + 1)"
proof -
  have "pow2 (ilog2 q) \<le> \<bar>q\<bar> \<and> \<bar>q\<bar> < pow2 (ilog2 q + 1)"
  proof (cases "1 \<le> \<bar>q\<bar>")
    case True
    define n where "n = \<lfloor>\<bar>q\<bar>\<rfloor>"
    have n1: "1 \<le> n" using True by (simp add: n_def le_floor_iff)
    have il: "ilog2 q = bitlen n - 1" using True by (simp add: ilog2_def n_def)
    have bl: "1 \<le> bitlen n" using n1 by (simp add: bitlen_alt_def)
    from bitlen_bounds[of n] n1
    have b: "2 ^ nat (bitlen n - 1) \<le> n" "n < 2 ^ nat (bitlen n)" by auto
    have "pow2 (bitlen n - 1) = of_int (2 ^ nat (bitlen n - 1))"
      using bl by (simp add: pow2_nat)
    also have "\<dots> \<le> of_int n" using b(1) by (simp only: of_int_le_iff)
    also have "\<dots> \<le> \<bar>q\<bar>" by (simp add: n_def)
    finally have lo: "pow2 (ilog2 q) \<le> \<bar>q\<bar>" by (simp add: il)
    have "\<bar>q\<bar> < of_int (n + 1)" unfolding n_def by linarith
    also have "\<dots> \<le> of_int (2 ^ nat (bitlen n))"
      using b(2) by (simp only: of_int_le_iff)
    also have "\<dots> = pow2 (bitlen n)" using bl by (simp add: pow2_nat)
    finally have "\<bar>q\<bar> < pow2 (ilog2 q + 1)" by (simp add: il)
    with lo show ?thesis by simp
  next
    case False
    define x where "x = 1 / \<bar>q\<bar>"
    define m where "m = \<lceil>x\<rceil> - 1"
    have qpos: "0 < \<bar>q\<bar>" using assms by simp
    have x1: "1 < x" using False qpos by (simp add: x_def)
    have m1: "1 \<le> m" using x1 by (simp add: m_def less_ceiling_iff)
    have il: "ilog2 q = - bitlen m" using False by (simp add: ilog2_def m_def x_def)
    have bl: "1 \<le> bitlen m" using m1 by (simp add: bitlen_alt_def)
    from bitlen_bounds[of m] m1
    have b: "2 ^ nat (bitlen m - 1) \<le> m" "m < 2 ^ nat (bitlen m)" by auto
    have "x \<le> of_int (m + 1)" unfolding m_def by linarith
    also have "\<dots> \<le> of_int (2 ^ nat (bitlen m))"
      using b(2) by (simp only: of_int_le_iff)
    also have "\<dots> = pow2 (bitlen m)" using bl by (simp add: pow2_nat)
    finally have "x \<le> pow2 (bitlen m)" .
    then have "1 / pow2 (bitlen m) \<le> \<bar>q\<bar>"
      using qpos pow2_pos[of "bitlen m"] by (simp add: x_def field_simps)
    then have lo: "pow2 (ilog2 q) \<le> \<bar>q\<bar>"
      by (simp add: il pow2_def power_int_minus_divide)
    have "pow2 (bitlen m - 1) = of_int (2 ^ nat (bitlen m - 1))"
      using bl by (simp add: pow2_nat)
    also have "\<dots> \<le> of_int m" using b(1) by (simp only: of_int_le_iff)
    also have "\<dots> < x" unfolding m_def by linarith
    finally have "pow2 (bitlen m - 1) < x" .
    then have "\<bar>q\<bar> < 1 / pow2 (bitlen m - 1)"
      using qpos pow2_pos[of "bitlen m - 1"] by (simp add: x_def field_simps)
    also have "\<dots> = pow2 (- (bitlen m - 1))"
      by (simp only: pow2_def power_int_minus_divide)
    finally have "\<bar>q\<bar> < pow2 (ilog2 q + 1)" by (simp add: il)
    with lo show ?thesis by simp
  qed
  then show "pow2 (ilog2 q) \<le> \<bar>q\<bar>" and "\<bar>q\<bar> < pow2 (ilog2 q + 1)" by simp_all
qed

lemma round_half_even_of_int: "round_half_even (of_int n) = n"
  by (simp add: round_half_even_def)

lemma round_half_even_ge:
  assumes "of_int n \<le> x" shows "n \<le> round_half_even x"
proof -
  have "n \<le> \<lfloor>x\<rfloor>" using assms by (simp add: le_floor_iff)
  then show ?thesis by (auto simp: round_half_even_def Let_def)
qed

lemma round_half_even_le:
  assumes "x \<le> of_int n" shows "round_half_even x \<le> n"
proof (cases "x = of_int n")
  case True
  then show ?thesis by (simp add: round_half_even_of_int)
next
  case False
  with assms have "x < of_int n" by simp
  then have "\<lfloor>x\<rfloor> < n" by (simp add: floor_less_iff)
  then have "\<lfloor>x\<rfloor> + 1 \<le> n" by simp
  then show ?thesis by (auto simp: round_half_even_def Let_def)
qed


lemma round_half_even_minus: "round_half_even (- x) = - round_half_even x"
proof (cases "x \<in> \<int>")
  case True
  then obtain n where "x = of_int n" by (auto elim: Ints_cases)
  then have "- x = of_int (- n)" by simp
  then show ?thesis using \<open>x = of_int n\<close> by (simp only: round_half_even_of_int)
next
  case False
  then have "x \<noteq> of_int \<lfloor>x\<rfloor>" by (metis Ints_of_int)
  then have fl: "\<lfloor>- x\<rfloor> = - \<lfloor>x\<rfloor> - 1"
    by (simp add: floor_minus ceiling_altdef)
  define f where "f = \<lfloor>x\<rfloor>"
  define d where "d = x - of_int f"
  have d': "- x - of_int (- f - 1) = 1 - d" by (simp add: d_def)
  have ev: "even (- f - 1) \<longleftrightarrow> odd f" by simp
  show ?thesis
    unfolding round_half_even_def Let_def fl f_def[symmetric] d' d_def[symmetric] ev
    by auto
qed

lemma ilog2_minus: "ilog2 (- q) = ilog2 q"
  by (simp add: ilog2_def)

lemma ulp_minus: "ulp (- q) = ulp q"
  by (simp add: ulp_def ilog2_minus)

lemma ulp_pos: "0 < ulp q"
  by (simp add: ulp_def pow2_pos)

lemma round_double_minus: "round_double (- q) = - round_double q"
  by (simp add: round_double_def ulp_minus round_half_even_minus)

lemma round_double_abs: "\<bar>round_double q\<bar> = round_double \<bar>q\<bar>"
proof (cases "0 \<le> q")
  case True
  then have "0 \<le> q / ulp q" using ulp_pos[of q] by simp
  then have "(0::int) \<le> round_half_even (q / ulp q)"
    using round_half_even_ge[of 0 "q / ulp q"] by simp
  then have "0 \<le> round_double q"
    using ulp_pos[of q] by (simp add: round_double_def)
  with True show ?thesis by simp
next
  case False
  then have q: "q < 0" by simp
  then have "q / ulp q \<le> 0" using ulp_pos[of q] by (simp add: divide_le_0_iff)
  then have "round_half_even (q / ulp q) \<le> 0"
    using round_half_even_le[of "q / ulp q" 0] by simp
  then have "round_double q \<le> 0"
    using ulp_pos[of q] by (simp add: round_double_def mult_le_0_iff)
  with q show ?thesis by (simp add: round_double_minus)
qed

text \<open>The exponent of the spacing is at most \<open>k\<close> when \<open>|q| < 2\<^sup>k\<^sup>+\<^sup>5\<^sup>3\<close>.\<close>

lemma ulp_exponent_le:
  assumes "q \<noteq> 0" "\<bar>q\<bar> < pow2 (k + 53)" "- 1074 \<le> k"
  shows "max (ilog2 q) (- 1022) - 52 \<le> k"
proof -
  have "pow2 (ilog2 q) < pow2 (k + 53)"
    using ilog2_bounds(1)[OF assms(1)] assms(2) by simp
  then have "\<not> k + 53 \<le> ilog2 q"
    using pow2_mono[of "k + 53" "ilog2 q"] by auto
  with assms(3) show ?thesis by simp
qed

lemma round_double_exact_strict:
  assumes "q = of_int m * pow2 k" "\<bar>m\<bar> < 2 ^ 53" "- 1074 \<le> k"
  shows "round_double q = q"
proof (cases "q = 0")
  case True
  then show ?thesis by (simp add: round_double_def)
next
  case False
  define ue where "ue = max (ilog2 q) (- 1022) - 52"
  have u: "ulp q = pow2 ue" by (simp add: ulp_def ue_def)
  have "\<bar>q\<bar> = of_int \<bar>m\<bar> * pow2 k"
    using pow2_pos[of k] by (simp add: assms(1) abs_mult)
  also have "\<dots> < of_int (2 ^ 53) * pow2 k"
    using assms(2) pow2_pos[of k] by (simp only: mult_less_cancel_right_pos of_int_less_iff)
  also have "\<dots> = pow2 (k + 53)" by (simp add: pow2_add pow2_numeral)
  finally have "\<bar>q\<bar> < pow2 (k + 53)" .
  then have le: "ue \<le> k" unfolding ue_def using ulp_exponent_le False assms(3) by blast
  have "q / ulp q = q / pow2 ue" by (simp only: u)
  also have "\<dots> = of_int m * pow2 (k - ue)" by (simp add: assms(1) pow2_diff)
  also have "\<dots> = of_int (m * 2 ^ nat (k - ue))" using le by (simp add: pow2_nat)
  finally have "round_half_even (q / ulp q) = m * 2 ^ nat (k - ue)"
    by (simp only: round_half_even_of_int)
  then have "round_double q = of_int (m * 2 ^ nat (k - ue)) * ulp q"
    using False by (simp add: round_double_def)
  also have "\<dots> = of_int m * pow2 (k - ue) * pow2 ue" using le by (simp add: pow2_nat u)
  also have "\<dots> = q" using pow2_pos[of ue] by (simp add: assms(1) pow2_diff)
  finally show ?thesis .
qed

lemma round_double_exact:
  assumes "q = of_int m * pow2 k" "\<bar>m\<bar> \<le> 2 ^ 53" "- 1074 \<le> k"
  shows "round_double q = q"
proof (cases "\<bar>m\<bar> < 2 ^ 53")
  case True
  then show ?thesis using assms round_double_exact_strict by blast
next
  case False
  with assms(2) have "\<bar>m\<bar> = 2 ^ 53" by simp
  then have m: "m = 9007199254740992 \<or> m = - 9007199254740992" by auto
  then have "m = 2 * (m div 2)" by auto
  then have "of_int m * pow2 k = of_int (m div 2) * (2 * pow2 k)"
    by (metis (no_types) of_int_mult of_int_numeral mult.assoc mult.commute)
  also have "2 * pow2 k = pow2 (k + 1)" using pow2_add[of k 1] by (simp add: pow2_def)
  finally have q: "q = of_int (m div 2) * pow2 (k + 1)" by (simp add: assms(1))
  have "\<bar>m div 2\<bar> < 2 ^ 53" using m by auto
  then show ?thesis using round_double_exact_strict[OF q] assms(3) by simp
qed


lemma pow2_strict_mono: "a < b \<Longrightarrow> pow2 a < pow2 b"
  by (simp add: pow2_def power_int_strict_increasing)

lemma pow2_le_cancel: "pow2 a \<le> pow2 b \<Longrightarrow> a \<le> b"
  using pow2_strict_mono[of b a] by (cases "a \<le> b") auto

lemma pow2_quotient_int:
  assumes "ue \<le> k"
  shows "pow2 k / pow2 ue = of_int (2 ^ nat (k - ue))"
  using assms pow2_nat[of "k - ue"] by (simp add: pow2_diff)

lemma round_double_pos_le_pow2:
  assumes "0 < a" "a \<le> pow2 k" "- 1074 \<le> k"
  shows "round_double a \<le> pow2 k"
proof -
  define ue where "ue = max (ilog2 a) (- 1022) - 52"
  have u: "ulp a = pow2 ue" by (simp add: ulp_def ue_def)
  have "pow2 (ilog2 a) \<le> pow2 k"
    using ilog2_bounds(1)[of a] assms(1,2) by simp
  then have "ilog2 a \<le> k" by (rule pow2_le_cancel)
  with assms(3) have le: "ue \<le> k" by (simp add: ue_def)
  define N :: int where "N = 2 ^ nat (k - ue)"
  have N: "pow2 k / pow2 ue = of_int N" unfolding N_def using le by (rule pow2_quotient_int)
  have "a / pow2 ue \<le> pow2 k / pow2 ue"
    using assms(2) pow2_pos[of ue] by (simp add: divide_right_mono)
  then have "round_half_even (a / pow2 ue) \<le> N"
    unfolding N by (rule round_half_even_le)
  then have "of_int (round_half_even (a / pow2 ue)) * pow2 ue \<le> of_int N * pow2 ue"
    using pow2_pos[of ue] by simp
  also have "of_int N * pow2 ue = pow2 k"
    using N pow2_pos[of ue] by (simp add: field_simps)
  finally show ?thesis using assms(1) by (simp add: round_double_def u)
qed

lemma round_double_pos_ge_pow2_aux:
  assumes "pow2 k \<le> a" "max (ilog2 a) (- 1022) - 52 \<le> k"
  shows "pow2 k \<le> round_double a"
proof -
  define ue where "ue = max (ilog2 a) (- 1022) - 52"
  have u: "ulp a = pow2 ue" by (simp add: ulp_def ue_def)
  have a: "0 < a" using assms(1) pow2_pos[of k] by simp
  have le: "ue \<le> k" using assms(2) by (simp add: ue_def)
  define N :: int where "N = 2 ^ nat (k - ue)"
  have N: "pow2 k / pow2 ue = of_int N" unfolding N_def using le by (rule pow2_quotient_int)
  have "pow2 k / pow2 ue \<le> a / pow2 ue"
    using assms(1) pow2_pos[of ue] by (simp add: divide_right_mono)
  then have "N \<le> round_half_even (a / pow2 ue)"
    unfolding N by (rule round_half_even_ge)
  then have "of_int N * pow2 ue \<le> of_int (round_half_even (a / pow2 ue)) * pow2 ue"
    using pow2_pos[of ue] by simp
  moreover have "of_int N * pow2 ue = pow2 k"
    using N pow2_pos[of ue] by (simp add: field_simps)
  ultimately show ?thesis using a by (simp add: round_double_def u)
qed

lemma round_double_pos_ge_pow2:
  assumes "pow2 k \<le> a" "- 1074 \<le> k"
  shows "pow2 k \<le> round_double a"
proof (cases "max (ilog2 a) (- 1022) - 52 \<le> k")
  case True
  with assms(1) show ?thesis by (rule round_double_pos_ge_pow2_aux)
next
  case False
  with assms(2) have k: "k < ilog2 a" by simp
  have a: "a \<noteq> 0" using assms(1) pow2_pos[of k] by auto
  have a': "0 < a" using assms(1) pow2_pos[of k] by simp
  have "pow2 (ilog2 a) \<le> a" using ilog2_bounds(1)[OF a] a' by simp
  moreover have "max (ilog2 a) (- 1022) - 52 \<le> ilog2 a" using k assms(2) by simp
  ultimately have "pow2 (ilog2 a) \<le> round_double a" by (rule round_double_pos_ge_pow2_aux)
  moreover have "pow2 k \<le> pow2 (ilog2 a)" using k by (simp add: pow2_mono)
  ultimately show ?thesis by simp
qed

lemma round_double_le_pow2:
  assumes "\<bar>q\<bar> \<le> pow2 k" "- 1074 \<le> k"
  shows "\<bar>round_double q\<bar> \<le> pow2 k"
proof (cases "q = 0")
  case True
  then show ?thesis using pow2_pos[of k] by (simp add: round_double_def)
next
  case False
  then have "0 < \<bar>q\<bar>" by simp
  then have "round_double \<bar>q\<bar> \<le> pow2 k" using assms by (rule round_double_pos_le_pow2)
  then show ?thesis by (simp only: round_double_abs)
qed

lemma round_double_ge_pow2:
  assumes "pow2 k \<le> \<bar>q\<bar>" "- 1074 \<le> k"
  shows "pow2 k \<le> \<bar>round_double q\<bar>"
  using round_double_pos_ge_pow2[OF assms] by (simp only: round_double_abs)

lemma round_double_Ints:
  assumes "q \<in> \<int>" "\<bar>q\<bar> \<le> 2 ^ 53"
  shows "round_double q = q"
proof -
  from assms(1) obtain m where m: "q = of_int m" by (auto elim: Ints_cases)
  have "\<bar>m\<bar> \<le> 2 ^ 53"
  proof -
    have "of_int \<bar>m\<bar> \<le> (of_int (2 ^ 53) :: rat)" using assms(2) by (simp add: m)
    then show ?thesis by (simp only: of_int_le_iff)
  qed
  moreover have "q = of_int m * pow2 0" by (simp add: m pow2_def)
  ultimately show ?thesis using round_double_exact[of q m 0] by simp
qed

lemma round_double_half_Ints:
  assumes "2 * q \<in> \<int>" "\<bar>q\<bar> \<le> 2 ^ 52"
  shows "round_double q = q"
proof -
  from assms(1) obtain m where m: "2 * q = of_int m" by (auto elim: Ints_cases)
  have "\<bar>m\<bar> \<le> 2 ^ 53"
  proof -
    have "\<bar>2 * q\<bar> \<le> 2 ^ 53" using assms(2) by simp
    then have "of_int \<bar>m\<bar> \<le> (of_int (2 ^ 53) :: rat)" by (simp add: m)
    then show ?thesis by (simp only: of_int_le_iff)
  qed
  moreover have "q = of_int m * pow2 (- 1)"
    using m by (simp add: pow2_def power_int_minus field_simps)
  ultimately show ?thesis using round_double_exact[of q m "- 1"] by simp
qed

lemma dbl_limit_pow2: "dbl_limit = pow2 1024"
  by (simp add: dbl_limit_def pow2_def)

lemma below_dbl_limit:
  assumes "\<bar>q\<bar> \<le> pow2 k" "- 1074 \<le> k" "k < 1024"
  shows "\<bar>round_double q\<bar> < dbl_limit"
proof -
  have "\<bar>round_double q\<bar> \<le> pow2 k" using assms(1,2) by (rule round_double_le_pow2)
  also have "\<dots> < dbl_limit" unfolding dbl_limit_pow2 using assms(3) by (rule pow2_strict_mono)
  finally show ?thesis .
qed

section \<open>Facts about the operations and the functions\<close>

lemma ebind_Inr [simp]: "ebind (Inr x) f = f x"
  by (simp add: ebind_def)

lemma ebind_Inl [simp]: "ebind (Inl e) f = Inl e"
  by (simp add: ebind_def)

lemma py_index_in_range [simp]: "i < length xs \<Longrightarrow> py_index xs i = Inr (xs ! i)"
  by (simp add: py_index_def)

lemma abs_le_pow2_of_int:
  assumes "\<bar>i\<bar> \<le> 2 ^ n"
  shows "\<bar>of_int i :: rat\<bar> \<le> pow2 (int n)"
proof -
  have "of_int \<bar>i\<bar> \<le> (of_int (2 ^ n) :: rat)" using assms by (simp only: of_int_le_iff)
  then show ?thesis by (simp add: pow2_def)
qed

lemma py_float_finite:
  assumes "\<bar>i\<bar> \<le> 2 ^ 1023"
  shows "py_float i = Inr (Finite (round_double (of_int i)))"
proof -
  have "\<bar>of_int i :: rat\<bar> \<le> pow2 1023" using abs_le_pow2_of_int[OF assms] by simp
  then have "\<bar>round_double (of_int i)\<bar> < dbl_limit" by (rule below_dbl_limit) simp_all
  then show ?thesis by (simp add: py_float_def Let_def)
qed

lemma int_truediv_finite:
  assumes "b \<noteq> 0" "\<bar>a\<bar> \<le> 2 ^ 1023"
  shows "int_truediv a b = Inr (Finite (round_double (of_int a / of_int b)))"
proof -
  have "1 \<le> \<bar>b\<bar>" using assms(1) by simp
  then have "(1::rat) \<le> \<bar>of_int b\<bar>" by (metis of_int_1 of_int_abs of_int_le_iff)
  then have "\<bar>of_int a :: rat\<bar> / \<bar>of_int b\<bar> \<le> \<bar>of_int a\<bar> / 1"
    by (intro divide_left_mono) simp_all
  then have "\<bar>of_int a / of_int b :: rat\<bar> \<le> \<bar>of_int a\<bar>"
    by (simp add: abs_divide)
  also have "\<dots> \<le> pow2 1023" using abs_le_pow2_of_int[OF assms(2)] by simp
  finally have "\<bar>round_double (of_int a / of_int b)\<bar> < dbl_limit"
    by (rule below_dbl_limit) simp_all
  then show ?thesis using assms(1) by (simp add: int_truediv_def Let_def)
qed

lemma int_truediv_two_exact:
  assumes "\<bar>s\<bar> \<le> 2 ^ 53"
  shows "int_truediv s 2 = Inr (Finite (of_int s / 2))"
proof -
  have "\<bar>s\<bar> \<le> 2 ^ 1023"
  proof -
    have "(2::int) ^ 53 \<le> 2 ^ 1023" by (rule power_increasing) simp_all
    with assms show ?thesis by linarith
  qed
  then have "int_truediv s 2 = Inr (Finite (round_double (of_int s / of_int 2)))"
    by (intro int_truediv_finite) simp_all
  moreover have "round_double (of_int s / 2) = of_int s / 2"
  proof (rule round_double_exact[of _ s "- 1"])
    show "(of_int s / 2 :: rat) = of_int s * pow2 (- 1)"
      by (simp add: pow2_def power_int_minus field_simps)
  qed (use assms in simp_all)
  ultimately show ?thesis by simp
qed

lemma trunc_half:
  "trunc (of_int s / 2) = (if 0 \<le> s then s div 2 else - ((- s) div 2))"
proof -
  have f: "\<lfloor>(of_int k / 2 :: rat)\<rfloor> = k div 2" for k
    using floor_divide_of_int_eq[of k 2, where ?'a = rat] by simp
  have "\<lceil>(of_int s / 2 :: rat)\<rceil> = - \<lfloor>(of_int (- s) / 2 :: rat)\<rfloor>"
    by (simp add: ceiling_def)
  then have c: "\<lceil>(of_int s / 2 :: rat)\<rceil> = - ((- s) div 2)" by (simp only: f)
  show ?thesis by (simp add: trunc_def f c)
qed

lemma method_value_left: "method_value ''left'' l r = Inr l"
  by (simp add: method_value_def)

lemma method_value_right: "method_value ''right'' l r = Inr r"
  by (simp add: method_value_def)

lemma method_value_average:
  assumes "m \<noteq> ''left''" "m \<noteq> ''right''" "\<bar>l + r\<bar> \<le> 2 ^ 53"
  shows "method_value m l r = Inr (truncating_average l r)"
proof -
  have "int_truediv (l + r) 2 = Inr (Finite (of_int (l + r) / 2))"
    using assms(3) by (rule int_truediv_two_exact)
  then show ?thesis
    using assms(1,2)
    by (simp add: method_value_def trunc_half truncating_average_def Let_def del: of_int_add)
qed

lemma method_value_other:
  assumes "m \<noteq> ''left''" "m \<noteq> ''right''"
  shows "method_value m l r = method_value ''average'' l r"
  using assms by (simp add: method_value_def)

lemma method_value_returns:
  assumes "\<bar>l + r\<bar> \<le> 2 ^ 1023"
  shows "\<exists>v. method_value m l r = Inr v"
  using assms by (simp add: method_value_def int_truediv_finite)

lemma get_face_points_unfold:
  assumes "length p = 68"
  shows "get_face_points p m t =
     (if t = ''eyebrow'' then
        ebind (method_value m (snd (p ! 18)) (snd (p ! 25))) (\<lambda>v.
        ebind (method_value m (snd (p ! 50)) (snd (p ! 52))) (\<lambda>b.
        Inr (box (fst (p ! 0)) (fst (p ! 16)) v b)))
      else if t = ''eyelid'' then
        ebind (method_value m (snd (p ! 37)) (snd (p ! 43))) (\<lambda>v.
        ebind (method_value m (snd (p ! 50)) (snd (p ! 52))) (\<lambda>b.
        Inr (box (fst (p ! 0)) (fst (p ! 16)) (v - 4) b)))
      else Inl (ValueError invalid_top_message))"
  using assms
  by (auto simp: get_face_points_def method_value_def box_def ebind_def
           split: sum.splits prod.splits)


lemma sample_points_length: "length sample_points = 68"
  by (simp add: sample_points_def)

lemma sample_points_nth:
  "sample_points ! 0 = (3, 1)" "sample_points ! 16 = (203, 2)"
  "sample_points ! 18 = (40, 80)" "sample_points ! 25 = (160, 83)"
  "sample_points ! 27 = (100, 60)" "sample_points ! 30 = (107, 90)"
  "sample_points ! 36 = (33, 50)" "sample_points ! 37 = (50, 50)"
  "sample_points ! 41 = (50, 50)" "sample_points ! 43 = (150, 21)"
  "sample_points ! 44 = (150, 60)" "sample_points ! 45 = (193, 55)"
  "sample_points ! 46 = (150, 60)" "sample_points ! 50 = (90, 130)"
  "sample_points ! 52 = (110, 133)"
  by (simp_all add: sample_points_def)

lemma sample_points_average_eyelid:
  "get_face_points sample_points ''average'' ''eyelid'' = Inr (box 3 203 31 131)"
  by (simp add: get_face_points_unfold sample_points_length sample_points_nth
        method_value_average truncating_average_def)

lemma sample_points_left_eyebrow:
  "get_face_points sample_points ''left'' ''eyebrow'' = Inr (box 3 203 80 130)"
  by (simp add: get_face_points_unfold sample_points_length sample_points_nth
        method_value_left)

section \<open>The corners of the box\<close>

text \<open>
  Claim C5. Whatever the method and the top reference, a box that
  \<^verbatim>\<open>get_face_points\<close> returns for a list of 68 landmarks has the x-coordinate of
  point 0 in both left corners and the x-coordinate of point 16 in both right corners;
  no other landmark enters these four values.
\<close>

theorem get_face_points_width:
  assumes "length p = 68" and "get_face_points p m t = Inr c"
  shows "map_option fst (c ''top_left'') = Some (fst (p ! 0))
       \<and> map_option fst (c ''bottom_left'') = Some (fst (p ! 0))
       \<and> map_option fst (c ''top_right'') = Some (fst (p ! 16))
       \<and> map_option fst (c ''bottom_right'') = Some (fst (p ! 16))"
proof -
  from assms obtain yt yb where "c = box (fst (p ! 0)) (fst (p ! 16)) yt yb"
    by (auto simp: get_face_points_unfold ebind_def split: if_splits sum.splits)
  then show ?thesis by (simp add: box_def)
qed

theorem get_face_points_width_witness:
  "length sample_points = 68
   \<and> get_face_points sample_points ''average'' ''eyelid'' = Inr (box 3 203 31 131)
   \<and> map_option fst (box 3 203 31 131 ''top_left'') = Some 3
   \<and> map_option fst (box 3 203 31 131 ''bottom_left'') = Some 3
   \<and> map_option fst (box 3 203 31 131 ''top_right'') = Some 203
   \<and> map_option fst (box 3 203 31 131 ''bottom_right'') = Some 203"
  using get_face_points_width[OF sample_points_length sample_points_average_eyelid]
  by (simp add: sample_points_length sample_points_average_eyelid sample_points_nth)

section \<open>Heights of the box and the two arguments\<close>

lemma machine_coords_nth:
  assumes "machine_coords p" "i < length p"
  shows "in_long_range (fst (p ! i))" "in_long_range (snd (p ! i))"
proof -
  from assms have "case p ! i of (x, y) \<Rightarrow> in_long_range x \<and> in_long_range y"
    by (simp add: machine_coords_def list_all_length)
  then show "in_long_range (fst (p ! i))" "in_long_range (snd (p ! i))"
    by (cases "p ! i"; simp)+
qed

lemma in_long_range_sum:
  assumes "in_long_range a" "in_long_range b"
  shows "\<bar>a + b\<bar> \<le> 2 ^ 1023" "\<bar>a - b\<bar> \<le> 2 ^ 1023"
proof -
  have "(2::int) ^ 64 \<le> 2 ^ 1023" by (rule power_increasing) simp_all
  moreover have "\<bar>a + b\<bar> \<le> 2 ^ 64" "\<bar>a - b\<bar> \<le> 2 ^ 64"
    using assms by (auto simp: in_long_range_def abs_if)
  ultimately show "\<bar>a + b\<bar> \<le> 2 ^ 1023" "\<bar>a - b\<bar> \<le> 2 ^ 1023" by linarith+
qed

lemma method_value_not_ValueError: "method_value m l r \<noteq> Inl (ValueError msg)"
proof (cases "int_truediv (l + r) 2")
  case (Inl e)
  then have "e \<noteq> ValueError msg"
    by (auto simp: int_truediv_def Let_def split: if_splits)
  with Inl show ?thesis by (simp add: method_value_def)
next
  case (Inr x)
  then obtain q where "x = Finite q"
    by (auto simp: int_truediv_def Let_def split: if_splits)
  with Inr show ?thesis by (simp add: method_value_def)
qed

text \<open>
  Claim C4. For a list of 68 landmarks and any method, the top of the box under
  \<open>top = 'eyelid'\<close> is the value that the method computes from the y-coordinates of
  points 37 and 43, less 4; under \<open>top = 'eyebrow'\<close> it is the value computed from
  points 18 and 25, unshifted. The bottom and the sides are the same in both cases.
\<close>

theorem eyelid_shift:
  assumes "length p = 68"
  shows "get_face_points p m ''eyelid'' =
           ebind (method_value m (snd (p ! 37)) (snd (p ! 43))) (\<lambda>v.
           ebind (method_value m (snd (p ! 50)) (snd (p ! 52))) (\<lambda>b.
           Inr (box (fst (p ! 0)) (fst (p ! 16)) (v - 4) b)))
       \<and> get_face_points p m ''eyebrow'' =
           ebind (method_value m (snd (p ! 18)) (snd (p ! 25))) (\<lambda>v.
           ebind (method_value m (snd (p ! 50)) (snd (p ! 52))) (\<lambda>b.
           Inr (box (fst (p ! 0)) (fst (p ! 16)) v b)))"
  using assms by (simp add: get_face_points_unfold)

theorem eyelid_shift_witness:
  "length sample_points = 68
   \<and> method_value ''right'' (snd (sample_points ! 37)) (snd (sample_points ! 43)) = Inr 21
   \<and> get_face_points sample_points ''right'' ''eyelid'' = Inr (box 3 203 (21 - 4) 133)
   \<and> method_value ''right'' (snd (sample_points ! 18)) (snd (sample_points ! 25)) = Inr 83
   \<and> get_face_points sample_points ''right'' ''eyebrow'' = Inr (box 3 203 83 133)"
  using eyelid_shift[OF sample_points_length, of "''right''"]
  by (simp add: sample_points_length sample_points_nth method_value_right)


text \<open>
  Claim C6. For a list of 68 landmarks: a \<open>top\<close> other than \<open>'eyebrow'\<close> and
  \<open>'eyelid'\<close> raises the \<open>ValueError\<close> of line 66; a \<open>method\<close> other than
  \<open>'left'\<close> and \<open>'right'\<close> gives exactly what \<open>'average'\<close> gives, no \<open>ValueError\<close>
  is raised for any method when \<open>top\<close> is valid, and a box is returned whenever the
  coordinates are machine integers.
\<close>

theorem top_checked_method_falls_back:
  assumes "length p = 68"
  shows "(t \<noteq> ''eyebrow'' \<and> t \<noteq> ''eyelid'' \<longrightarrow>
            get_face_points p m t = Inl (ValueError invalid_top_message))
       \<and> (m \<noteq> ''left'' \<and> m \<noteq> ''right'' \<longrightarrow>
            get_face_points p m t = get_face_points p ''average'' t)
       \<and> (t = ''eyebrow'' \<or> t = ''eyelid'' \<longrightarrow>
            get_face_points p m t \<noteq> Inl (ValueError msg))
       \<and> (m \<noteq> ''left'' \<and> m \<noteq> ''right'' \<and> (t = ''eyebrow'' \<or> t = ''eyelid'')
            \<and> machine_coords p \<longrightarrow> (\<exists>c. get_face_points p m t = Inr c))"
proof (intro conjI impI)
  assume "t \<noteq> ''eyebrow'' \<and> t \<noteq> ''eyelid''"
  then show "get_face_points p m t = Inl (ValueError invalid_top_message)"
    using assms by (simp add: get_face_points_unfold)
next
  assume "m \<noteq> ''left'' \<and> m \<noteq> ''right''"
  then have "method_value m l r = method_value ''average'' l r" for l r
    by (intro method_value_other) simp_all
  then show "get_face_points p m t = get_face_points p ''average'' t"
    using assms by (simp add: get_face_points_unfold)
next
  assume t: "t = ''eyebrow'' \<or> t = ''eyelid''"
  have e: "ebind (method_value m l r) (\<lambda>v. ebind (method_value m l' r') (\<lambda>b. Inr (f v b)))
           \<noteq> Inl (ValueError msg)" for l r l' r' and f :: "int \<Rightarrow> int \<Rightarrow> corners"
    using method_value_not_ValueError[of m l r msg] method_value_not_ValueError[of m l' r' msg]
    by (cases "method_value m l r"; cases "method_value m l' r'"; simp)
  from t show "get_face_points p m t \<noteq> Inl (ValueError msg)"
    using assms e by (auto simp: get_face_points_unfold)
next
  assume a: "m \<noteq> ''left'' \<and> m \<noteq> ''right'' \<and> (t = ''eyebrow'' \<or> t = ''eyelid'') \<and> machine_coords p"
  then have mc: "machine_coords p" by simp
  have r: "\<exists>v. method_value m (snd (p ! i)) (snd (p ! j)) = Inr v"
    if "i < 68" "j < 68" for i j
  proof -
    have "in_long_range (snd (p ! i))" "in_long_range (snd (p ! j))"
      using that assms mc by (simp_all add: machine_coords_nth(2))
    then have "\<bar>snd (p ! i) + snd (p ! j)\<bar> \<le> 2 ^ 1023" by (rule in_long_range_sum(1))
    then show ?thesis by (rule method_value_returns)
  qed
  obtain b where b: "method_value m (snd (p ! 50)) (snd (p ! 52)) = Inr b"
    using r[of 50 52] by auto
  obtain v1 where v1: "method_value m (snd (p ! 18)) (snd (p ! 25)) = Inr v1"
    using r[of 18 25] by auto
  obtain v2 where v2: "method_value m (snd (p ! 37)) (snd (p ! 43)) = Inr v2"
    using r[of 37 43] by auto
  from a have "t = ''eyebrow'' \<or> t = ''eyelid''" by simp
  then show "\<exists>c. get_face_points p m t = Inr c"
    using assms by (auto simp: get_face_points_unfold b v1 v2)
qed


lemma machine_coords_replicate: "in_long_range x \<Longrightarrow> in_long_range y \<Longrightarrow> machine_coords (replicate n (x, y))"
  by (simp add: machine_coords_def list_all_length)

lemma machine_coords_update:
  assumes "machine_coords xs" "in_long_range (fst v)" "in_long_range (snd v)"
  shows "machine_coords (xs[i := v])"
proof -
  have "set (xs[i := v]) \<subseteq> insert v (set xs)" by (rule set_update_subset_insert)
  then show ?thesis
    using assms by (cases v) (auto simp: machine_coords_def list_all_iff)
qed

lemma sample_points_machine_coords: "machine_coords sample_points"
  unfolding sample_points_def
  by (intro machine_coords_update machine_coords_replicate) (simp_all add: in_long_range_def)

theorem top_checked_method_falls_back_witness:
  "length sample_points = 68
   \<and> ''chin'' \<noteq> ''eyebrow'' \<and> ''chin'' \<noteq> ''eyelid''
   \<and> get_face_points sample_points ''median'' ''chin'' = Inl (ValueError invalid_top_message)
   \<and> ''median'' \<noteq> ''left'' \<and> ''median'' \<noteq> ''right''
   \<and> get_face_points sample_points ''median'' ''eyelid'' = Inr (box 3 203 31 131)
   \<and> get_face_points sample_points ''average'' ''eyelid'' = Inr (box 3 203 31 131)
   \<and> machine_coords sample_points"
  using top_checked_method_falls_back[OF sample_points_length, of "''chin''" "''median''"]
        top_checked_method_falls_back[OF sample_points_length, of "''eyelid''" "''median''"]
        sample_points_average_eyelid sample_points_machine_coords sample_points_length
  by simp

lemma round_double_beyond_53_bits: "round_double (18014398509481987 / 2) = 9007199254740994"
  by code_simp

text \<open>
  Claim C3, as stated, fails for \<open>top = 'eyelid'\<close>: on the sample landmarks the
  two top points have the y-coordinates 50 and 21, whose truncating average is 35, and
  the box has its top at 31.
\<close>

theorem average_top_counterexample:
  "get_face_points sample_points ''average'' ''eyelid'' = Inr (box 3 203 31 131)
   \<and> map_option snd (box 3 203 31 131 ''top_left'') = Some 31
   \<and> truncating_average (snd (sample_points ! 37)) (snd (sample_points ! 43)) = 35"
  by (simp add: sample_points_average_eyelid sample_points_nth box_def truncating_average_def)

text \<open>
  Beyond 53 bits the average is no longer the truncating one: the source divides in
  double precision, \<^verbatim>\<open>int((a + b) / 2)\<close>, and the quotient is rounded before it is
  truncated.
\<close>

lemma average_beyond_53_bits:
  "method_value ''average'' 9007199254740993 9007199254740994 = Inr 9007199254740994
   \<and> truncating_average 9007199254740993 9007199254740994 = 9007199254740993"
proof -
  have "\<bar>18014398509481987 :: int\<bar> \<le> 2 ^ 1023"
  proof -
    have "(2::int) ^ 64 \<le> 2 ^ 1023" by (rule power_increasing) simp_all
    then show ?thesis by simp
  qed
  then have "int_truediv 18014398509481987 2
             = Inr (Finite (round_double (of_int 18014398509481987 / of_int 2)))"
    by (intro int_truediv_finite) simp_all
  then have "int_truediv 18014398509481987 2 = Inr (Finite 9007199254740994)"
    by (simp add: round_double_beyond_53_bits)
  then show ?thesis
    by (simp add: method_value_def trunc_def truncating_average_def)
qed

text \<open>
  Claim C3, amended. For a list of 68 landmarks and a valid \<open>top\<close>, with its two top
  points and its shift (4 for the eyelid, 0 for the eyebrow): \<open>'average'\<close> puts the top
  at the truncating average of the two top y-coordinates less the shift and the bottom
  at the truncating average of the y-coordinates of points 50 and 52, as long as both
  sums have a magnitude of at most \<open>2\<^sup>5\<^sup>3\<close>; \<open>'left'\<close> uses the left top point
  less the shift and point 50, \<open>'right'\<close> the right top point less the shift and point 52.
\<close>

theorem get_face_points_heights:
  assumes "length p = 68" and "t = ''eyebrow'' \<or> t = ''eyelid''"
  shows "(\<bar>snd (fst (top_points p t)) + snd (snd (top_points p t))\<bar> \<le> 2 ^ 53
            \<and> \<bar>snd (p ! 50) + snd (p ! 52)\<bar> \<le> 2 ^ 53 \<longrightarrow>
          get_face_points p ''average'' t =
            Inr (box (fst (p ! 0)) (fst (p ! 16))
                   (truncating_average (snd (fst (top_points p t))) (snd (snd (top_points p t)))
                      - top_shift t)
                   (truncating_average (snd (p ! 50)) (snd (p ! 52)))))
       \<and> get_face_points p ''left'' t =
            Inr (box (fst (p ! 0)) (fst (p ! 16))
                   (snd (fst (top_points p t)) - top_shift t) (snd (p ! 50)))
       \<and> get_face_points p ''right'' t =
            Inr (box (fst (p ! 0)) (fst (p ! 16))
                   (snd (snd (top_points p t)) - top_shift t) (snd (p ! 52)))"
  using assms
  by (auto simp: get_face_points_unfold top_points_def top_shift_def
        method_value_average method_value_left method_value_right)

theorem get_face_points_heights_witness:
  "length sample_points = 68
   \<and> top_points sample_points ''eyelid'' = ((50, 50), (150, 21))
   \<and> \<bar>50 + 21 :: int\<bar> \<le> 2 ^ 53 \<and> \<bar>snd (sample_points ! 50) + snd (sample_points ! 52)\<bar> \<le> 2 ^ 53
   \<and> get_face_points sample_points ''average'' ''eyelid'' = Inr (box 3 203 (35 - 4) 131)
   \<and> get_face_points sample_points ''left'' ''eyelid'' = Inr (box 3 203 (50 - 4) 130)
   \<and> get_face_points sample_points ''right'' ''eyelid'' = Inr (box 3 203 (21 - 4) 133)"
  using get_face_points_heights[OF sample_points_length, of "''eyelid''"]
  by (simp add: sample_points_length sample_points_nth top_points_def top_shift_def
        truncating_average_def)

section \<open>The quality gate and the ratio\<close>

lemma round_double_zero [simp]: "round_double 0 = 0"
  by (simp add: round_double_def)

lemma round_double_nonzero:
  assumes "pow2 k \<le> \<bar>q\<bar>" "- 1074 \<le> k"
  shows "round_double q \<noteq> 0"
  using round_double_ge_pow2[OF assms] pow2_pos[of k] by auto

lemma round_double_sign:
  shows "0 \<le> q \<Longrightarrow> 0 \<le> round_double q" and "q \<le> 0 \<Longrightarrow> round_double q \<le> 0"
proof -
  have *: "0 \<le> round_double a" if "0 \<le> a" for a
    using round_double_abs[of a] that by (metis abs_ge_zero abs_of_nonneg)
  show "0 \<le> q \<Longrightarrow> 0 \<le> round_double q" by (rule *)
  show "q \<le> 0 \<Longrightarrow> round_double q \<le> 0"
    using *[of "- q"] by (simp add: round_double_minus)
qed

lemma ieee_result_finite:
  assumes "\<bar>q\<bar> \<le> pow2 k" "- 1074 \<le> k" "k < 1024"
  shows "ieee_result q = Finite (round_double q)"
proof -
  have "\<bar>round_double q\<bar> < dbl_limit" using assms by (rule below_dbl_limit)
  then show ?thesis by (auto simp: ieee_result_def Let_def)
qed

lemma ieee_result_Ints:
  assumes "q \<in> \<int>" "\<bar>q\<bar> \<le> 2 ^ 53"
  shows "ieee_result q = Finite q"
proof -
  have "\<bar>q\<bar> \<le> pow2 53" using assms(2) by (simp add: pow2_numeral)
  then have "ieee_result q = Finite (round_double q)" by (rule ieee_result_finite) simp_all
  then show ?thesis using assms by (simp add: round_double_Ints)
qed

lemma ieee_result_half_Ints:
  assumes "2 * q \<in> \<int>" "\<bar>q\<bar> \<le> 2 ^ 52"
  shows "ieee_result q = Finite q"
proof -
  have "\<bar>q\<bar> \<le> pow2 52" using assms(2) by (simp add: pow2_numeral)
  then have "ieee_result q = Finite (round_double q)" by (rule ieee_result_finite) simp_all
  then show ?thesis using assms by (simp add: round_double_half_Ints)
qed

lemma py_float_Inr: "py_float i = Inr x \<Longrightarrow> x = double_of_int i"
  by (auto simp: py_float_def double_of_int_def ieee_result_def Let_def split: if_splits)

lemma int_truediv_Inr: "int_truediv a b = Inr x \<Longrightarrow> x = ieee_result (of_int a / of_int b)"
  by (auto simp: int_truediv_def ieee_result_def Let_def split: if_splits)

lemma float_truediv_Inr: "float_truediv x y = Inr z \<Longrightarrow> z = ieee_div x y"
  by (auto simp: float_truediv_def split: if_splits)

lemma py_float_exact:
  assumes "\<bar>i\<bar> \<le> 2 ^ 53"
  shows "py_float i = Inr (Finite (of_int i))"
proof -
  have "(2::int) ^ 53 \<le> 2 ^ 1023" by (rule power_increasing) simp_all
  with assms have "\<bar>i\<bar> \<le> 2 ^ 1023" by linarith
  then have "py_float i = Inr (Finite (round_double (of_int i)))" by (rule py_float_finite)
  moreover have "round_double (of_int i) = of_int i"
    by (rule round_double_exact[of _ i 0]) (use assms in \<open>simp_all add: pow2_def\<close>)
  ultimately show ?thesis by simp
qed

lemma picture_values_unfold:
  assumes "length p = 68"
  shows "picture_values p =
     ebind (int_truediv (fst (p ! 16) - fst (p ! 0)) 100) (\<lambda>width_im.
     ebind (py_float (snd (p ! 37) + snd (p ! 41))) (\<lambda>sum_l.
     ebind (float_truediv sum_l (Finite 2)) (\<lambda>eye_y_l.
     ebind (py_float (snd (p ! 44) + snd (p ! 46))) (\<lambda>sum_r.
     ebind (float_truediv sum_r (Finite 2)) (\<lambda>eye_y_r.
     ebind (float_truediv (float_sub eye_y_r eye_y_l) width_im) (\<lambda>eye_dif.
     ebind (py_float (fst (p ! 30) - fst (p ! 27))) (\<lambda>nose_delta.
     ebind (float_truediv nose_delta width_im) (\<lambda>nose_dif.
     ebind (int_truediv (fst (p ! 36) - fst (p ! 0)) (fst (p ! 16) - fst (p ! 45))) (\<lambda>space_ratio.
     Inr (eye_dif, nose_dif, space_ratio))))))))))"
  using assms by (simp add: picture_values_def)

lemma picture_values_Inr:
  assumes "length p = 68" "picture_values p = Inr (e, n, s)"
  shows "e = eye_height_difference p" "n = nose_tilt p" "s = eye_space_ratio p"
proof -
  from assms(2) obtain width_im sum_l eye_y_l sum_r eye_y_r nose_delta where
    "int_truediv (fst (p ! 16) - fst (p ! 0)) 100 = Inr width_im"
    "py_float (snd (p ! 37) + snd (p ! 41)) = Inr sum_l"
    "float_truediv sum_l (Finite 2) = Inr eye_y_l"
    "py_float (snd (p ! 44) + snd (p ! 46)) = Inr sum_r"
    "float_truediv sum_r (Finite 2) = Inr eye_y_r"
    "float_truediv (float_sub eye_y_r eye_y_l) width_im = Inr e"
    "py_float (fst (p ! 30) - fst (p ! 27)) = Inr nose_delta"
    "float_truediv nose_delta width_im = Inr n"
    "int_truediv (fst (p ! 36) - fst (p ! 0)) (fst (p ! 16) - fst (p ! 45)) = Inr s"
    unfolding picture_values_unfold[OF assms(1)]
    by (auto simp: ebind_def split: sum.splits)
  then have
    "width_im = face_width_scale p"
    "eye_y_l = ieee_div (double_of_int (snd (p ! 37) + snd (p ! 41))) (Finite 2)"
    "eye_y_r = ieee_div (double_of_int (snd (p ! 44) + snd (p ! 46))) (Finite 2)"
    "e = ieee_div (float_sub eye_y_r eye_y_l) width_im"
    "n = ieee_div (double_of_int (fst (p ! 30) - fst (p ! 27))) width_im"
    "s = eye_space_ratio p"
    by (auto dest!: py_float_Inr int_truediv_Inr float_truediv_Inr
          simp: face_width_scale_def eye_space_ratio_def)
  then show "e = eye_height_difference p" "n = nose_tilt p" "s = eye_space_ratio p"
    by (simp_all add: eye_height_difference_def nose_tilt_def)
qed

lemma good_picture_check_unfold:
  "good_picture_check p debug =
     ebind (picture_values p) (\<lambda>(e, n, s).
       Inr (\<not> (float_gt e 5 \<or> float_gt n (7 / 2) \<or> float_gt s 3),
            if debug then [(e, n, s)] else []))"
  by (cases "picture_values p") (auto simp: good_picture_check_def Let_def)

lemma float_truediv_two: "float_truediv x (Finite 2) = Inr (ieee_div x (Finite 2))"
  by (simp add: float_truediv_def is_zero_def)

lemma width_scale_zero_iff:
  assumes "\<bar>w\<bar> \<le> 2 ^ 1023"
  shows "int_truediv w 100 = Inr (Finite (round_double (of_int w / 100)))"
    and "round_double (of_int w / 100 :: rat) = 0 \<longleftrightarrow> w = 0"
proof -
  show "int_truediv w 100 = Inr (Finite (round_double (of_int w / 100)))"
    using int_truediv_finite[of 100 w] assms by simp
  show "round_double (of_int w / 100 :: rat) = 0 \<longleftrightarrow> w = 0"
  proof
    assume r: "round_double (of_int w / 100 :: rat) = 0"
    show "w = 0"
    proof (rule ccontr)
      assume "w \<noteq> 0"
      then have "1 \<le> \<bar>w\<bar>" by simp
      then have "(1::rat) \<le> \<bar>of_int w\<bar>" by (metis of_int_1 of_int_abs of_int_le_iff)
      then have "pow2 (- 7) \<le> \<bar>of_int w / 100 :: rat\<bar>"
        by (simp add: pow2_def power_int_minus field_simps)
      then have "round_double (of_int w / 100 :: rat) \<noteq> 0"
        by (rule round_double_nonzero) simp
      with r show False by simp
    qed
  qed simp
qed

lemma int_truediv_not_zero_division:
  "int_truediv a b = Inl ZeroDivisionError \<longleftrightarrow> b = 0"
  by (simp add: int_truediv_def Let_def)

lemma py_float_not_zero_division: "py_float i \<noteq> Inl ZeroDivisionError"
  by (simp add: py_float_def Let_def)

lemma int_truediv_hundred_cases:
  "int_truediv w 100 = Inl OverflowError
   \<or> (\<exists>r. int_truediv w 100 = Inr (Finite r) \<and> (r = 0 \<longleftrightarrow> w = 0))"
proof (cases "w = 0")
  case True
  then show ?thesis by (simp add: int_truediv_def Let_def dbl_limit_def)
next
  case False
  then have "1 \<le> \<bar>w\<bar>" by simp
  then have "(1::rat) \<le> \<bar>of_int w\<bar>" by (metis of_int_1 of_int_abs of_int_le_iff)
  then have "pow2 (- 7) \<le> \<bar>of_int w / 100 :: rat\<bar>"
    by (simp add: pow2_def power_int_minus field_simps)
  then have "round_double (of_int w / 100 :: rat) \<noteq> 0"
    by (rule round_double_nonzero) simp
  with False show ?thesis by (simp add: int_truediv_def Let_def)
qed


lemma float_truediv_Finite:
  "float_truediv x (Finite r) = (if r = 0 then Inl ZeroDivisionError else Inr (ieee_div x (Finite r)))"
  by (simp add: float_truediv_def is_zero_def)

lemma picture_values_machine:
  assumes "length p = 68" "machine_coords p"
  shows "picture_values p =
     (if fst (p ! 16) = fst (p ! 0) \<or> fst (p ! 16) = fst (p ! 45) then Inl ZeroDivisionError
      else Inr (eye_height_difference p, nose_tilt p, eye_space_ratio p))"
proof -
  have x: "in_long_range (fst (p ! i))" and y: "in_long_range (snd (p ! i))" if "i < 68" for i
    using that assms by (simp_all add: machine_coords_nth)
  have w: "\<bar>fst (p ! 16) - fst (p ! 0)\<bar> \<le> 2 ^ 1023"
    by (intro in_long_range_sum(2) x) simp_all
  have sl: "\<bar>snd (p ! 37) + snd (p ! 41)\<bar> \<le> 2 ^ 1023"
    by (intro in_long_range_sum(1) y) simp_all
  have sr: "\<bar>snd (p ! 44) + snd (p ! 46)\<bar> \<le> 2 ^ 1023"
    by (intro in_long_range_sum(1) y) simp_all
  have nd: "\<bar>fst (p ! 30) - fst (p ! 27)\<bar> \<le> 2 ^ 1023"
    by (intro in_long_range_sum(2) x) simp_all
  have ls: "\<bar>fst (p ! 36) - fst (p ! 0)\<bar> \<le> 2 ^ 1023"
    by (intro in_long_range_sum(2) x) simp_all
  note wz = width_scale_zero_iff[OF w]
  have sp: "int_truediv (fst (p ! 36) - fst (p ! 0)) (fst (p ! 16) - fst (p ! 45)) =
              (if fst (p ! 16) = fst (p ! 45) then Inl ZeroDivisionError
               else Inr (Finite (round_double (of_int (fst (p ! 36) - fst (p ! 0))
                                                / of_int (fst (p ! 16) - fst (p ! 45))))))"
    using int_truediv_finite[OF _ ls, of "fst (p ! 16) - fst (p ! 45)"]
    by (simp add: int_truediv_def)
  have pv: "picture_values p =
     (if fst (p ! 16) = fst (p ! 0) \<or> fst (p ! 16) = fst (p ! 45) then Inl ZeroDivisionError
      else Inr (ieee_div
                  (float_sub
                     (ieee_div (Finite (round_double (of_int (snd (p ! 44) + snd (p ! 46))))) (Finite 2))
                     (ieee_div (Finite (round_double (of_int (snd (p ! 37) + snd (p ! 41))))) (Finite 2)))
                  (Finite (round_double (of_int (fst (p ! 16) - fst (p ! 0)) / 100))),
                ieee_div (Finite (round_double (of_int (fst (p ! 30) - fst (p ! 27)))))
                  (Finite (round_double (of_int (fst (p ! 16) - fst (p ! 0)) / 100))),
                Finite (round_double (of_int (fst (p ! 36) - fst (p ! 0))
                                       / of_int (fst (p ! 16) - fst (p ! 45))))))"
    unfolding picture_values_unfold[OF assms(1)]
    by (simp add: wz py_float_finite[OF sl] py_float_finite[OF sr] py_float_finite[OF nd]
          float_truediv_two float_truediv_Finite sp del: of_int_add of_int_diff)
  show ?thesis
  proof (cases "fst (p ! 16) = fst (p ! 0) \<or> fst (p ! 16) = fst (p ! 45)")
    case True
    then show ?thesis using pv by simp
  next
    case False
    then obtain e n s where ens: "picture_values p = Inr (e, n, s)" using pv by auto
    from picture_values_Inr[OF assms(1) ens] ens False show ?thesis by simp
  qed
qed

lemma ebind_not_error:
  assumes "m \<noteq> Inl E" and "\<And>x. m = Inr x \<Longrightarrow> f x \<noteq> Inl E"
  shows "ebind m f \<noteq> Inl E"
  using assms by (cases m) simp_all

lemma width_scale_zero_divisionD:
  assumes "int_truediv w 100 = Inr x" "float_truediv y x = Inl ZeroDivisionError"
  shows "w = 0"
  using int_truediv_hundred_cases[of w] assms
  by (auto simp: float_truediv_def is_zero_def split: if_splits)

lemma picture_values_no_zero_division:
  assumes "length p = 68" "fst (p ! 16) \<noteq> fst (p ! 0)" "fst (p ! 16) \<noteq> fst (p ! 45)"
  shows "picture_values p \<noteq> Inl ZeroDivisionError"
  unfolding picture_values_unfold[OF assms(1)]
  by (intro ebind_not_error)
     (use assms in \<open>auto simp: int_truediv_not_zero_division py_float_not_zero_division
        float_truediv_two dest: width_scale_zero_divisionD\<close>)


lemma sample_points_values:
  "eye_height_difference sample_points = Finite 5"
  "nose_tilt sample_points = Finite (7 / 2)"
  "eye_space_ratio sample_points = Finite 3"
  by (simp_all add: eye_height_difference_def nose_tilt_def eye_space_ratio_def
        face_width_scale_def double_of_int_def sample_points_nth
        ieee_result_Ints ieee_result_half_Ints)

lemma tilted_sample_values:
  "eye_height_difference (sample_points[30 := (108, 90)]) = Finite 5"
  "nose_tilt (sample_points[30 := (108, 90)]) = Finite 4"
  "eye_space_ratio (sample_points[30 := (108, 90)]) = Finite 3"
  by (simp_all add: eye_height_difference_def nose_tilt_def eye_space_ratio_def
        face_width_scale_def double_of_int_def sample_points_nth sample_points_length
        ieee_result_Ints ieee_result_half_Ints)

text \<open>
  Claim C1. For a list of 68 landmarks on which \<^verbatim>\<open>good_picture_check\<close> returns, the
  verdict is \<open>False\<close> exactly when the eye-height difference is above 5, or the nose
  tilt is above 3.5, or the space ratio is above 3 (each value computed in double
  precision as the source does, each comparison strict), and \<open>True\<close> exactly when all
  three are at or below their thresholds. It does return, with that verdict, when the
  coordinates are machine integers and neither divisor is zero; \<open>debug\<close> changes only
  what is printed.
\<close>

theorem good_picture_check_thresholds:
  assumes "length p = 68"
  shows "(good_picture_check p debug = Inr (verdict, printed) \<longrightarrow>
            (verdict = False \<longleftrightarrow>
               float_gt (eye_height_difference p) 5 \<or> float_gt (nose_tilt p) (7 / 2)
               \<or> float_gt (eye_space_ratio p) 3)
          \<and> (verdict = True \<longleftrightarrow>
               \<not> float_gt (eye_height_difference p) 5 \<and> \<not> float_gt (nose_tilt p) (7 / 2)
               \<and> \<not> float_gt (eye_space_ratio p) 3))
       \<and> (machine_coords p \<and> fst (p ! 16) \<noteq> fst (p ! 0) \<and> fst (p ! 16) \<noteq> fst (p ! 45) \<longrightarrow>
            good_picture_check p debug =
              Inr (\<not> (float_gt (eye_height_difference p) 5 \<or> float_gt (nose_tilt p) (7 / 2)
                       \<or> float_gt (eye_space_ratio p) 3),
                   if debug then [(eye_height_difference p, nose_tilt p, eye_space_ratio p)]
                   else []))"
proof (intro conjI impI)
  assume r: "good_picture_check p debug = Inr (verdict, printed)"
  then obtain e n s where ens: "picture_values p = Inr (e, n, s)"
    by (cases "picture_values p") (auto simp: good_picture_check_unfold)
  note v = picture_values_Inr[OF assms ens]
  from r ens v have "verdict = (\<not> (float_gt (eye_height_difference p) 5
      \<or> float_gt (nose_tilt p) (7 / 2) \<or> float_gt (eye_space_ratio p) 3))"
    by (simp add: good_picture_check_unfold)
  then show "verdict = False \<longleftrightarrow>
               float_gt (eye_height_difference p) 5 \<or> float_gt (nose_tilt p) (7 / 2)
               \<or> float_gt (eye_space_ratio p) 3"
    and "verdict = True \<longleftrightarrow>
               \<not> float_gt (eye_height_difference p) 5 \<and> \<not> float_gt (nose_tilt p) (7 / 2)
               \<and> \<not> float_gt (eye_space_ratio p) 3"
    by simp_all
next
  assume "machine_coords p \<and> fst (p ! 16) \<noteq> fst (p ! 0) \<and> fst (p ! 16) \<noteq> fst (p ! 45)"
  then show "good_picture_check p debug =
              Inr (\<not> (float_gt (eye_height_difference p) 5 \<or> float_gt (nose_tilt p) (7 / 2)
                       \<or> float_gt (eye_space_ratio p) 3),
                   if debug then [(eye_height_difference p, nose_tilt p, eye_space_ratio p)]
                   else [])"
    using assms by (simp add: good_picture_check_unfold picture_values_machine)
qed

theorem good_picture_check_thresholds_witness:
  "length sample_points = 68 \<and> machine_coords sample_points
   \<and> fst (sample_points ! 16) \<noteq> fst (sample_points ! 0)
   \<and> fst (sample_points ! 16) \<noteq> fst (sample_points ! 45)
   \<and> eye_height_difference sample_points = Finite 5
   \<and> nose_tilt sample_points = Finite (7 / 2)
   \<and> eye_space_ratio sample_points = Finite 3
   \<and> good_picture_check sample_points False = Inr (True, [])
   \<and> nose_tilt (sample_points[30 := (108, 90)]) = Finite 4
   \<and> good_picture_check (sample_points[30 := (108, 90)]) False = Inr (False, [])"
proof -
  have m: "machine_coords (sample_points[30 := (108, 90)])"
    by (intro machine_coords_update sample_points_machine_coords) (simp_all add: in_long_range_def)
  have l: "length (sample_points[30 := (108, 90)]) = 68" by (simp add: sample_points_length)
  show ?thesis
    using good_picture_check_thresholds[OF sample_points_length, of False]
          good_picture_check_thresholds[OF l, of False] m
    by (simp add: sample_points_length sample_points_machine_coords sample_points_nth
          sample_points_values tilted_sample_values)
qed

text \<open>
  Claim C10. In \<^verbatim>\<open>good_picture_check\<close> on a list of 68 landmarks, \<open>ZeroDivisionError\<close>
  cannot be raised when point 16 differs in x from both point 0 and point 45. For
  machine-integer coordinates it is raised exactly when the face width
  \<open>p[16].x - p[0].x\<close> or the right space \<open>p[16].x - p[45].x\<close> is zero, and otherwise the
  function returns a verdict: every division in it is defined.
\<close>

theorem good_picture_check_zero_division:
  assumes "length p = 68"
  shows "(fst (p ! 16) \<noteq> fst (p ! 0) \<and> fst (p ! 16) \<noteq> fst (p ! 45) \<longrightarrow>
            good_picture_check p debug \<noteq> Inl ZeroDivisionError)
       \<and> (machine_coords p \<longrightarrow>
            (good_picture_check p debug = Inl ZeroDivisionError \<longleftrightarrow>
               fst (p ! 16) = fst (p ! 0) \<or> fst (p ! 16) = fst (p ! 45)))
       \<and> (machine_coords p \<and> fst (p ! 16) \<noteq> fst (p ! 0) \<and> fst (p ! 16) \<noteq> fst (p ! 45) \<longrightarrow>
            (\<exists>verdict printed. good_picture_check p debug = Inr (verdict, printed)))"
proof (intro conjI impI)
  assume "fst (p ! 16) \<noteq> fst (p ! 0) \<and> fst (p ! 16) \<noteq> fst (p ! 45)"
  then have "picture_values p \<noteq> Inl ZeroDivisionError"
    using assms by (simp add: picture_values_no_zero_division)
  then show "good_picture_check p debug \<noteq> Inl ZeroDivisionError"
    by (cases "picture_values p") (auto simp: good_picture_check_unfold)
next
  assume "machine_coords p"
  then show "good_picture_check p debug = Inl ZeroDivisionError \<longleftrightarrow>
               fst (p ! 16) = fst (p ! 0) \<or> fst (p ! 16) = fst (p ! 45)"
    using assms by (simp add: good_picture_check_unfold picture_values_machine)
next
  assume "machine_coords p \<and> fst (p ! 16) \<noteq> fst (p ! 0) \<and> fst (p ! 16) \<noteq> fst (p ! 45)"
  then show "\<exists>verdict printed. good_picture_check p debug = Inr (verdict, printed)"
    using assms by (simp add: good_picture_check_unfold picture_values_machine)
qed

theorem good_picture_check_zero_division_witness:
  "length sample_points = 68 \<and> machine_coords sample_points
   \<and> fst (sample_points ! 16) \<noteq> fst (sample_points ! 0)
   \<and> fst (sample_points ! 16) \<noteq> fst (sample_points ! 45)
   \<and> good_picture_check sample_points False \<noteq> Inl ZeroDivisionError
   \<and> (\<exists>verdict printed. good_picture_check sample_points False = Inr (verdict, printed))
   \<and> machine_coords (sample_points[16 := (3, 2)])
   \<and> fst (sample_points[16 := (3, 2)] ! 16) = fst (sample_points[16 := (3, 2)] ! 0)
   \<and> good_picture_check (sample_points[16 := (3, 2)]) False = Inl ZeroDivisionError
   \<and> machine_coords (sample_points[45 := (203, 55)])
   \<and> fst (sample_points[45 := (203, 55)] ! 16) = fst (sample_points[45 := (203, 55)] ! 45)
   \<and> good_picture_check (sample_points[45 := (203, 55)]) False = Inl ZeroDivisionError"
proof -
  have m1: "machine_coords (sample_points[16 := (3, 2)])"
    by (intro machine_coords_update sample_points_machine_coords) (simp_all add: in_long_range_def)
  have l1: "length (sample_points[16 := (3, 2)]) = 68" by (simp add: sample_points_length)
  have m2: "machine_coords (sample_points[45 := (203, 55)])"
    by (intro machine_coords_update sample_points_machine_coords) (simp_all add: in_long_range_def)
  have l2: "length (sample_points[45 := (203, 55)]) = 68" by (simp add: sample_points_length)
  show ?thesis
    using good_picture_check_zero_division[OF sample_points_length, of False]
          good_picture_check_zero_division[OF l1, of False]
          good_picture_check_zero_division[OF l2, of False] m1 m2
    by (simp add: sample_points_length sample_points_machine_coords sample_points_nth)
qed

lemma int_quotient_upper:
  assumes "h \<noteq> 0" "\<bar>w\<bar> \<le> 2 ^ n"
  shows "\<bar>of_int w / of_int h :: rat\<bar> \<le> pow2 (int n)"
proof -
  have "1 \<le> \<bar>h\<bar>" using assms(1) by simp
  then have "(1::rat) \<le> \<bar>of_int h\<bar>" by (metis of_int_1 of_int_abs of_int_le_iff)
  then have "\<bar>of_int w :: rat\<bar> / \<bar>of_int h\<bar> \<le> \<bar>of_int w\<bar> / 1"
    by (intro divide_left_mono) simp_all
  then have "\<bar>of_int w / of_int h :: rat\<bar> \<le> \<bar>of_int w\<bar>" by (simp add: abs_divide)
  also have "\<dots> \<le> pow2 (int n)" using assms(2) by (rule abs_le_pow2_of_int)
  finally show ?thesis .
qed

lemma int_quotient_lower:
  assumes "w \<noteq> 0" "h \<noteq> 0" "\<bar>h\<bar> \<le> 2 ^ n"
  shows "pow2 (- int n) \<le> \<bar>of_int w / of_int h :: rat\<bar>"
proof -
  have "1 \<le> \<bar>w\<bar>" using assms(1) by simp
  then have w: "(1::rat) \<le> \<bar>of_int w\<bar>" by (metis of_int_1 of_int_abs of_int_le_iff)
  have h: "(0::rat) < \<bar>of_int h\<bar>" using assms(2) by simp
  have "\<bar>of_int h :: rat\<bar> \<le> pow2 (int n)" using assms(3) by (rule abs_le_pow2_of_int)
  then have "1 / pow2 (int n) \<le> 1 / \<bar>of_int h :: rat\<bar>"
    using h by (intro divide_left_mono) (simp_all add: pow2_pos)
  also have "\<dots> \<le> \<bar>of_int w :: rat\<bar> / \<bar>of_int h\<bar>"
    using w h by (intro divide_right_mono) simp_all
  finally show ?thesis by (simp add: pow2_def power_int_minus_divide abs_divide)
qed

lemma FWHR_calc_unfold:
  assumes "corners ''top_right'' = Some rt" "corners ''top_left'' = Some lt"
    "corners ''bottom_left'' = Some lb"
  shows "FWHR_calc corners =
           ebind (py_float (fst rt - fst lt)) (\<lambda>fw.
           ebind (py_float (snd lb - snd lt)) (\<lambda>fh. float_truediv fw fh))"
  using assms by (simp add: FWHR_calc_def py_getitem_def Let_def)

lemma float_quotient_exact_operands:
  assumes "\<bar>w\<bar> \<le> 2 ^ 53" "\<bar>h\<bar> \<le> 2 ^ 53"
  shows "ebind (py_float w) (\<lambda>fw. ebind (py_float h) (\<lambda>fh. float_truediv fw fh)) =
           (if h = 0 then Inl ZeroDivisionError
            else Inr (Finite (round_double (of_int w / of_int h))))"
proof (cases "h = 0")
  case True
  then show ?thesis using assms by (simp add: py_float_exact float_truediv_Finite)
next
  case False
  have "\<bar>of_int w / of_int h :: rat\<bar> \<le> pow2 (int 53)"
    using False assms(1) by (rule int_quotient_upper)
  then have "ieee_result (of_int w / of_int h) = Finite (round_double (of_int w / of_int h))"
    by (intro ieee_result_finite[of _ 53]) simp_all
  then show ?thesis using False assms by (simp add: py_float_exact float_truediv_Finite)
qed

lemma round_double_negative:
  assumes "w \<noteq> 0" "h \<noteq> 0" "\<bar>h\<bar> \<le> 2 ^ 53" "of_int w / of_int h < (0::rat)"
  shows "round_double (of_int w / of_int h) < 0"
proof -
  have "pow2 (- int 53) \<le> \<bar>of_int w / of_int h :: rat\<bar>"
    using assms(1-3) by (rule int_quotient_lower)
  then have "round_double (of_int w / of_int h) \<noteq> 0"
    by (rule round_double_nonzero) simp
  moreover have "round_double (of_int w / of_int h) \<le> 0"
    using assms(4) by (intro round_double_sign(2)) simp
  ultimately show ?thesis by simp
qed

text \<open>
  Claim C2. For corners that hold the three entries it reads, \<^verbatim>\<open>FWHR_calc\<close> is
  \<^verbatim>\<open>float(width) / float(height)\<close> with width \<open>top_right.x - top_left.x\<close> and height
  \<open>bottom_left.y - top_left.y\<close>, and nothing else. When both fit 53 bits the result is
  the double nearest to the exact quotient; a zero height is not guarded and raises
  \<open>ZeroDivisionError\<close>, a negative height under a positive width gives a negative
  ratio; width 50 and height 25 give exactly 2.0.
\<close>

theorem FWHR_calc_ratio:
  assumes "corners ''top_right'' = Some rt" and "corners ''top_left'' = Some lt"
    and "corners ''bottom_left'' = Some lb"
  shows "FWHR_calc corners =
           ebind (py_float (fst rt - fst lt)) (\<lambda>fw.
           ebind (py_float (snd lb - snd lt)) (\<lambda>fh. float_truediv fw fh))
       \<and> (\<bar>fst rt - fst lt\<bar> \<le> 2 ^ 53 \<and> \<bar>snd lb - snd lt\<bar> \<le> 2 ^ 53 \<longrightarrow>
            FWHR_calc corners =
              (if snd lb - snd lt = 0 then Inl ZeroDivisionError
               else Inr (Finite (round_double
                      (of_int (fst rt - fst lt) / of_int (snd lb - snd lt))))))
       \<and> (\<bar>fst rt - fst lt\<bar> \<le> 2 ^ 53 \<and> \<bar>snd lb - snd lt\<bar> \<le> 2 ^ 53
            \<and> snd lb - snd lt < 0 \<and> 0 < fst rt - fst lt \<longrightarrow>
            (\<exists>r. r < 0 \<and> FWHR_calc corners = Inr (Finite r)))
       \<and> (fst rt - fst lt = 50 \<and> snd lb - snd lt = 25 \<longrightarrow>
            FWHR_calc corners = Inr (Finite 2))"
proof (intro conjI impI)
  note u = FWHR_calc_unfold[OF assms]
  show "FWHR_calc corners =
           ebind (py_float (fst rt - fst lt)) (\<lambda>fw.
           ebind (py_float (snd lb - snd lt)) (\<lambda>fh. float_truediv fw fh))"
    by (rule u)
  {
    assume b: "\<bar>fst rt - fst lt\<bar> \<le> 2 ^ 53 \<and> \<bar>snd lb - snd lt\<bar> \<le> 2 ^ 53"
    then show "FWHR_calc corners =
              (if snd lb - snd lt = 0 then Inl ZeroDivisionError
               else Inr (Finite (round_double
                      (of_int (fst rt - fst lt) / of_int (snd lb - snd lt)))))"
      unfolding u by (intro float_quotient_exact_operands) simp_all
  }
  {
    assume b: "\<bar>fst rt - fst lt\<bar> \<le> 2 ^ 53 \<and> \<bar>snd lb - snd lt\<bar> \<le> 2 ^ 53
            \<and> snd lb - snd lt < 0 \<and> 0 < fst rt - fst lt"
    define w where "w = fst rt - fst lt"
    define h where "h = snd lb - snd lt"
    from b have wh: "\<bar>w\<bar> \<le> 2 ^ 53" "\<bar>h\<bar> \<le> 2 ^ 53" "h < 0" "0 < w"
      unfolding w_def h_def by blast+
    have "(of_int w / of_int h :: rat) < 0"
      using wh(3,4) by (simp add: divide_neg_pos divide_pos_neg field_simps)
    then have "round_double (of_int w / of_int h) < 0"
      using wh by (intro round_double_negative) simp_all
    moreover have "FWHR_calc corners = Inr (Finite (round_double (of_int w / of_int h)))"
      unfolding u w_def[symmetric] h_def[symmetric]
      using wh by (simp add: float_quotient_exact_operands)
    ultimately show "\<exists>r. r < 0 \<and> FWHR_calc corners = Inr (Finite r)" by blast
  }
  {
    assume e: "fst rt - fst lt = 50 \<and> snd lb - snd lt = 25"
    have "ebind (py_float 50) (\<lambda>fw. ebind (py_float 25) (\<lambda>fh. float_truediv fw fh))
          = Inr (Finite (round_double (of_int 50 / of_int 25)))"
      by (subst float_quotient_exact_operands) simp_all
    also have "round_double (of_int 50 / of_int 25) = 2"
      by (simp add: round_double_Ints)
    finally show "FWHR_calc corners = Inr (Finite 2)" using e by (simp add: u)
  }
qed

theorem FWHR_calc_ratio_witness:
  "box 3 53 10 35 ''top_right'' = Some (53, 10) \<and> box 3 53 10 35 ''top_left'' = Some (3, 10)
   \<and> box 3 53 10 35 ''bottom_left'' = Some (3, 35)
   \<and> FWHR_calc (box 3 53 10 35) = Inr (Finite 2)
   \<and> FWHR_calc (box 3 53 10 10) = Inl ZeroDivisionError
   \<and> (\<exists>r. r < 0 \<and> FWHR_calc (box 3 53 35 10) = Inr (Finite r))"
proof -
  have "FWHR_calc (box 3 53 10 35) = Inr (Finite 2)"
    using FWHR_calc_ratio[of "box 3 53 10 35" "(53, 10)" "(3, 10)" "(3, 35)",
            THEN conjunct2, THEN conjunct2, THEN conjunct2]
    by (simp add: box_def)
  moreover have "FWHR_calc (box 3 53 10 10) = Inl ZeroDivisionError"
    using FWHR_calc_ratio[of "box 3 53 10 10" "(53, 10)" "(3, 10)" "(3, 10)",
            THEN conjunct2, THEN conjunct1]
    by (simp add: box_def)
  moreover have "\<exists>r. r < 0 \<and> FWHR_calc (box 3 53 35 10) = Inr (Finite r)"
    using FWHR_calc_ratio[of "box 3 53 35 10" "(53, 35)" "(3, 35)" "(3, 10)",
            THEN conjunct2, THEN conjunct2, THEN conjunct1]
    by (simp add: box_def)
  ultimately show ?thesis by (simp add: box_def)
qed

section \<open>Loading images and the batch run\<close>

lemma load_image_file_not_ValueError: "load_image_file ext fs path \<noteq> Inl (ValueError msg)"
  by (auto simp: load_image_file_def split: option.splits file_content.splits)

text \<open>
  Claim C9. With \<open>url = True\<close>, \<^verbatim>\<open>load_image\<close> raises the \<open>ValueError\<close> of line 34,
  touching no file, exactly for the paths whose last three characters are neither
  \<open>jpg\<close> nor \<open>png\<close>. Every other path is fetched into the one file \<open>tmp.jpg\<close> and the
  image is then decoded from that file; a failed fetch or decoding is an \<open>OSError\<close>.
\<close>

theorem load_image_url:
  "(fst (load_image ext fs path True) = Inl (ValueError ''Unknown image type'')
      \<longleftrightarrow> last3 path \<noteq> ''jpg'' \<and> last3 path \<noteq> ''png'')
   \<and> (last3 path \<noteq> ''jpg'' \<and> last3 path \<noteq> ''png'' \<longrightarrow>
        load_image ext fs path True = (Inl (ValueError ''Unknown image type''), fs))
   \<and> (last3 path = ''jpg'' \<or> last3 path = ''png'' \<longrightarrow>
        load_image ext fs path True =
          (case url_content ext path of
             None \<Rightarrow> (Inl OSError, fs)
           | Some b \<Rightarrow>
               (load_image_file ext (fs(''tmp.jpg'' \<mapsto> ImageData b)) ''tmp.jpg'',
                fs(''tmp.jpg'' \<mapsto> ImageData b))))
   \<and> (last3 path = ''jpg'' \<or> last3 path = ''png'' \<longrightarrow>
        (\<forall>b. url_content ext path = Some b \<longrightarrow>
           fst (load_image ext fs path True) =
             (case decode_image ext b of Some img \<Rightarrow> Inr img | None \<Rightarrow> Inl OSError)))"
  using load_image_file_not_ValueError[of ext _ "''tmp.jpg''" "''Unknown image type''"]
  by (auto simp: load_image_def urlretrieve_def load_image_file_def
        split: option.splits prod.splits sum.splits)

theorem load_image_url_witness:
  "last3 ''http://host/face.gif'' \<noteq> ''jpg'' \<and> last3 ''http://host/face.gif'' \<noteq> ''png''
   \<and> load_image sample_web Map.empty ''http://host/face.gif'' True
        = (Inl (ValueError ''Unknown image type''), Map.empty)
   \<and> last3 ''http://host/face.png'' = ''png''
   \<and> url_content sample_web ''http://host/face.png'' = Some 7
   \<and> load_image sample_web Map.empty ''http://host/face.png'' True
        = (Inr 8, [''tmp.jpg'' \<mapsto> ImageData 7])"
  using load_image_url[of sample_web Map.empty "''http://host/face.gif''"]
        load_image_url[of sample_web Map.empty "''http://host/face.png''"]
  by (simp add: last3_def sample_web_def load_image_file_def)

lemma load_image_local: "load_image ext fs path False = (load_image_file ext fs path, fs)"
  by (simp add: load_image_def)

lemma get_fwhr_local: "snd (get_fwhr ext fs path False sh m t) = fs"
  by (simp add: get_fwhr_def load_image_local split: sum.splits)

lemma get_fwhr_batch:
  "get_fwhr ext fs path False False ''average'' ''eyelid'' =
     (ebind (load_image_file ext fs path) (\<lambda>img.
      ebind (py_index (raw_face_landmarks ext img) 0) gate_ratio), fs)"
proof -
  have "ebind (good_picture_check lm False) (\<lambda>(good, printed).
             if good then
               ebind (get_face_points lm ''average'' ''eyelid'') (\<lambda>corners.
               ebind (FWHR_calc corners) (\<lambda>fwh_ratio.
                 if False then Inr None else Inr (Some fwh_ratio)))
             else (if False then Inr None else Inr None)) = gate_ratio lm" for lm
    by (cases "good_picture_check lm False") (auto simp: gate_ratio_def)
  then show ?thesis
    by (cases "load_image_file ext fs path") (simp_all add: get_fwhr_def load_image_local)
qed

lemma get_fwhr_batch_Inr:
  assumes "get_fwhr ext fs path False False ''average'' ''eyelid'' = (Inr r, fs')"
  shows "fs' = fs"
    and "\<exists>img lm rest. load_image_file ext fs path = Inr img
           \<and> raw_face_landmarks ext img = lm # rest \<and> gate_ratio lm = Inr r"
proof -
  from assms show "fs' = fs" by (simp add: get_fwhr_batch)
  from assms obtain img where img: "load_image_file ext fs path = Inr img"
    and r: "ebind (py_index (raw_face_landmarks ext img) 0) gate_ratio = Inr r"
    by (cases "load_image_file ext fs path") (simp_all add: get_fwhr_batch)
  from r obtain lm rest where "raw_face_landmarks ext img = lm # rest" "gate_ratio lm = Inr r"
    by (cases "raw_face_landmarks ext img") (simp_all add: py_index_def)
  with img show "\<exists>img lm rest. load_image_file ext fs path = Inr img
           \<and> raw_face_landmarks ext img = lm # rest \<and> gate_ratio lm = Inr r"
    by blast
qed

lemma bulk_loop_files: "snd (bulk_loop ext fs folder names acc) = fs"
proof (induction names arbitrary: acc)
  case Nil
  then show ?case by simp
next
  case (Cons filename rest)
  show ?case
  proof (cases "get_fwhr ext fs (folder @ filename) False False ''average'' ''eyelid''")
    case (Pair res fs')
    then have "fs' = fs"
      using get_fwhr_local[of ext fs "folder @ filename" False "''average''" "''eyelid''"] by simp
    with Pair Cons.IH show ?thesis by (cases res) simp_all
  qed
qed

lemma bulk_loop_rows:
  assumes "bulk_loop ext fs folder names acc = (Inr rows, fs')"
  shows "\<exists>new. rows = acc @ new \<and> map fst new = filter is_image_name names
           \<and> (\<forall>(f, r) \<in> set new.
                 get_fwhr ext fs (folder @ f) False False ''average'' ''eyelid'' = (Inr r, fs))"
  using assms
proof (induction names arbitrary: acc)
  case Nil
  then show ?case by simp
next
  case (Cons filename rest)
  show ?case
  proof (cases "is_image_name filename")
    case False
    with Cons.prems have "bulk_loop ext fs folder rest acc = (Inr rows, fs')" by simp
    from Cons.IH[OF this] False show ?thesis by simp
  next
    case True
    obtain res fs1 where g: "get_fwhr ext fs (folder @ filename) False False ''average'' ''eyelid''
        = (res, fs1)" by (cases "get_fwhr ext fs (folder @ filename) False False ''average'' ''eyelid''")
    have fs1: "fs1 = fs"
      using g get_fwhr_local[of ext fs "folder @ filename" False "''average''" "''eyelid''"] by simp
    from Cons.prems True g obtain r where res: "res = Inr r"
      and loop: "bulk_loop ext fs folder rest (acc @ [(filename, r)]) = (Inr rows, fs')"
      by (cases res) (simp_all add: fs1)
    from Cons.IH[OF loop] obtain new where new: "rows = (acc @ [(filename, r)]) @ new"
      "map fst new = filter is_image_name rest"
      "\<forall>(f, r) \<in> set new.
          get_fwhr ext fs (folder @ f) False False ''average'' ''eyelid'' = (Inr r, fs)"
      by blast
    show ?thesis
    proof (intro exI[of _ "(filename, r) # new"] conjI)
      show "rows = acc @ (filename, r) # new" using new(1) by simp
      show "map fst ((filename, r) # new) = filter is_image_name (filename # rest)"
        using new(2) True by simp
      show "\<forall>(f, r) \<in> set ((filename, r) # new).
          get_fwhr ext fs (folder @ f) False False ''average'' ''eyelid'' = (Inr r, fs)"
        using new(3) g res fs1 by simp
    qed
  qed
qed


lemma sample_points_gate: "good_picture_check sample_points False = Inr (True, [])"
  by (simp add: good_picture_check_unfold
        picture_values_machine[OF sample_points_length sample_points_machine_coords]
        sample_points_nth sample_points_values)

lemma tilted_sample_gate: "good_picture_check (sample_points[30 := (108, 90)]) False = Inr (False, [])"
proof -
  have m: "machine_coords (sample_points[30 := (108, 90)])"
    by (intro machine_coords_update sample_points_machine_coords) (simp_all add: in_long_range_def)
  have l: "length (sample_points[30 := (108, 90)]) = 68" by (simp add: sample_points_length)
  show ?thesis
    by (simp add: good_picture_check_unfold picture_values_machine[OF l m]
          sample_points_nth sample_points_length tilted_sample_values)
qed

lemma sample_box_ratio: "FWHR_calc (box 3 203 31 131) = Inr (Finite 2)"
proof -
  have "FWHR_calc (box 3 203 31 131) =
          ebind (py_float (fst (203 :: int, 31 :: int) - fst (3 :: int, 31 :: int))) (\<lambda>fw.
          ebind (py_float (snd (3 :: int, 131 :: int) - snd (3 :: int, 31 :: int)))
            (\<lambda>fh. float_truediv fw fh))"
    by (rule FWHR_calc_unfold) (simp_all add: box_def)
  also have "\<dots> = Inr (Finite (round_double (of_int 200 / of_int 100)))"
    by (simp add: float_quotient_exact_operands)
  also have "round_double (of_int 200 / of_int 100) = 2" by (simp add: round_double_Ints)
  finally show ?thesis .
qed

lemma gate_ratio_sample: "gate_ratio sample_points = Inr (Some (Finite 2))"
  by (simp add: gate_ratio_def sample_points_gate sample_points_average_eyelid sample_box_ratio)

lemma gate_ratio_tilted: "gate_ratio (sample_points[30 := (108, 90)]) = Inr None"
  by (simp add: gate_ratio_def tilted_sample_gate)

lemma sample_batch_images:
  "get_fwhr sample_batch sample_files ''imgs/a.jpg'' False False ''average'' ''eyelid''
     = (Inr (Some (Finite 2)), sample_files)"
  "get_fwhr sample_batch sample_files ''imgs/b.png'' False False ''average'' ''eyelid''
     = (Inr None, sample_files)"
  "get_fwhr sample_batch sample_files ''noface/c.jpg'' False False ''average'' ''eyelid''
     = (Inl IndexError, sample_files)"
  by (simp_all add: get_fwhr_batch load_image_file_def sample_files_def sample_batch_def
        py_index_def gate_ratio_sample gate_ratio_tilted)

lemma sample_batch_loop:
  "bulk_loop sample_batch sample_files ''imgs/'' [''b.png'', ''notes.txt'', ''a.jpg''] []
     = (Inr [(''b.png'', None), (''a.jpg'', Some (Finite 2))], sample_files)"
  "bulk_loop sample_batch sample_files ''noface/'' [''c.jpg''] [] = (Inl IndexError, sample_files)"
  by (simp_all add: is_image_name_def endswith_def sample_batch_images)

lemma sample_rows_sorted:
  "sort_by_filename [(''b.png'', None), (''a.jpg'', Some (Finite 2))]
     = [(''a.jpg'', Some (Finite 2)), (''b.png'', None)]"
  by (simp add: sort_by_filename_def)


lemma get_fwhr_bulk_rows:
  assumes "listdir ext folder = Some names"
    and "get_fwhr_bulk ext fs folder sort_by = (Inr (), fs')"
  shows "\<exists>image_data. bulk_loop ext fs folder names [] = (Inr image_data, fs)
           \<and> fs' = to_csv fs (csv_path folder)
                     (if sort_by = ''filename'' then sort_by_filename image_data
                      else sort_by_ratio image_data)
           \<and> (sort_by = ''filename'' \<or> sort_by = ''ratio'')"
proof -
  obtain res fs1 where l: "bulk_loop ext fs folder names [] = (res, fs1)"
    by (cases "bulk_loop ext fs folder names []")
  have fs1: "fs1 = fs" using l bulk_loop_files[of ext fs folder names "[]"] by simp
  from assms l obtain image_data where "res = Inr image_data"
    by (cases res) (simp_all add: get_fwhr_bulk_def)
  with assms l fs1 show ?thesis
    by (auto simp: get_fwhr_bulk_def split: if_splits)
qed

text \<open>
  Claim C7, as stated, fails: the check of \<open>sort_by\<close> comes after the loop over the
  images, so an error of the loop is raised in its place. On a folder whose one image
  shows no face, \<open>sort_by = 'bogus'\<close> ends in the \<open>IndexError\<close> of line 185.
\<close>

theorem invalid_sort_by_counterexample:
  "listdir sample_batch ''noface/'' = Some [''c.jpg'']
   \<and> get_fwhr_bulk sample_batch sample_files ''noface/'' ''bogus''
       = (Inl IndexError, sample_files)"
proof -
  have l: "listdir sample_batch ''noface/'' = Some [''c.jpg'']"
    by (simp add: sample_batch_def)
  then show ?thesis by (simp add: get_fwhr_bulk_def sample_batch_loop del: bulk_loop.simps)
qed

lemma bulk_loop_first_error:
  assumes "\<forall>g \<in> set pre. is_image_name g \<longrightarrow>
             (\<exists>r. fst (get_fwhr ext fs (folder @ g) False False ''average'' ''eyelid'') = Inr r)"
    and "is_image_name f"
    and "fst (get_fwhr ext fs (folder @ f) False False ''average'' ''eyelid'') = Inl e"
  shows "bulk_loop ext fs folder (pre @ f # post) acc = (Inl e, fs)"
  using assms(1)
proof (induction pre arbitrary: acc)
  case Nil
  obtain res fs1 where g: "get_fwhr ext fs (folder @ f) False False ''average'' ''eyelid''
      = (res, fs1)" by (cases "get_fwhr ext fs (folder @ f) False False ''average'' ''eyelid''")
  have "fs1 = fs"
    using g get_fwhr_local[of ext fs "folder @ f" False "''average''" "''eyelid''"] by simp
  with g assms(2,3) show ?case by simp
next
  case (Cons g pre)
  show ?case
  proof (cases "is_image_name g")
    case False
    then show ?thesis using Cons by simp
  next
    case True
    obtain res fs1 where g: "get_fwhr ext fs (folder @ g) False False ''average'' ''eyelid''
        = (res, fs1)" by (cases "get_fwhr ext fs (folder @ g) False False ''average'' ''eyelid''")
    have fs1: "fs1 = fs"
      using g get_fwhr_local[of ext fs "folder @ g" False "''average''" "''eyelid''"] by simp
    from Cons.prems True g obtain r where "res = Inr r" by auto
    with g fs1 True Cons show ?thesis by simp
  qed
qed

text \<open>
  Claim C7, amended. For every \<open>sort_by\<close> other than \<open>'filename'\<close> and \<open>'ratio'\<close>,
  \<^verbatim>\<open>get_fwhr_bulk\<close> ends in an error and leaves every file as it was, so no output
  file is written. The check of \<open>sort_by\<close> follows the loop over the images: the error
  is the \<open>ValueError\<close> of line 236 when the folder can be listed and the loop
  completes; otherwise it is the earlier error, that of the listing or that of the loop,
  which is the error \<^verbatim>\<open>get_fwhr\<close> raises on the first image it fails on.
\<close>

theorem invalid_sort_by:
  assumes "sort_by \<noteq> ''filename''" and "sort_by \<noteq> ''ratio''"
  shows "snd (get_fwhr_bulk ext fs folder sort_by) = fs
       \<and> (\<exists>e. fst (get_fwhr_bulk ext fs folder sort_by) = Inl e)
       \<and> (listdir ext folder = None \<longrightarrow>
            get_fwhr_bulk ext fs folder sort_by = (Inl OSError, fs))
       \<and> (listdir ext folder = Some names
            \<and> fst (bulk_loop ext fs folder names []) = Inl e \<longrightarrow>
          get_fwhr_bulk ext fs folder sort_by = (Inl e, fs))
       \<and> (listdir ext folder = Some (pre @ f # post) \<and> is_image_name f
            \<and> (\<forall>g \<in> set pre. is_image_name g \<longrightarrow>
                  (\<exists>r. fst (get_fwhr ext fs (folder @ g) False False ''average'' ''eyelid'')
                         = Inr r))
            \<and> fst (get_fwhr ext fs (folder @ f) False False ''average'' ''eyelid'') = Inl e' \<longrightarrow>
          get_fwhr_bulk ext fs folder sort_by = (Inl e', fs))
       \<and> (listdir ext folder = Some names
            \<and> fst (bulk_loop ext fs folder names []) = Inr image_data \<longrightarrow>
          get_fwhr_bulk ext fs folder sort_by
            = (Inl (ValueError (invalid_sort_message sort_by)), fs))"
proof (cases "listdir ext folder")
  case None
  then show ?thesis by (simp add: get_fwhr_bulk_def)
next
  case (Some ns)
  obtain res fs1 where l: "bulk_loop ext fs folder ns [] = (res, fs1)"
    by (cases "bulk_loop ext fs folder ns []")
  have fs1: "fs1 = fs" using l bulk_loop_files[of ext fs folder ns "[]"] by simp
  have first: "get_fwhr_bulk ext fs folder sort_by = (Inl e', fs)"
    if "ns = pre @ f # post" "is_image_name f"
      "\<forall>g \<in> set pre. is_image_name g \<longrightarrow>
          (\<exists>r. fst (get_fwhr ext fs (folder @ g) False False ''average'' ''eyelid'') = Inr r)"
      "fst (get_fwhr ext fs (folder @ f) False False ''average'' ''eyelid'') = Inl e'"
  proof -
    have "bulk_loop ext fs folder (pre @ f # post) [] = (Inl e', fs)"
      using that(3,2,4) by (rule bulk_loop_first_error)
    then show ?thesis using Some that(1) by (simp add: get_fwhr_bulk_def del: bulk_loop.simps)
  qed
  have rest: "snd (get_fwhr_bulk ext fs folder sort_by) = fs
       \<and> (\<exists>e. fst (get_fwhr_bulk ext fs folder sort_by) = Inl e)
       \<and> (listdir ext folder = None \<longrightarrow>
            get_fwhr_bulk ext fs folder sort_by = (Inl OSError, fs))
       \<and> (listdir ext folder = Some names
            \<and> fst (bulk_loop ext fs folder names []) = Inl e \<longrightarrow>
          get_fwhr_bulk ext fs folder sort_by = (Inl e, fs))
       \<and> (listdir ext folder = Some names
            \<and> fst (bulk_loop ext fs folder names []) = Inr image_data \<longrightarrow>
          get_fwhr_bulk ext fs folder sort_by
            = (Inl (ValueError (invalid_sort_message sort_by)), fs))"
    using assms Some l fs1 by (cases res) (auto simp: get_fwhr_bulk_def)
  from rest first Some show ?thesis by simp
qed

theorem invalid_sort_by_witness:
  "''bogus'' \<noteq> ''filename'' \<and> ''bogus'' \<noteq> ''ratio''
   \<and> listdir sample_batch ''imgs/'' = Some [''b.png'', ''notes.txt'', ''a.jpg'']
   \<and> fst (bulk_loop sample_batch sample_files ''imgs/'' [''b.png'', ''notes.txt'', ''a.jpg''] [])
       = Inr [(''b.png'', None), (''a.jpg'', Some (Finite 2))]
   \<and> get_fwhr_bulk sample_batch sample_files ''imgs/'' ''bogus''
       = (Inl (ValueError (invalid_sort_message ''bogus'')), sample_files)
   \<and> listdir sample_batch ''noface/'' = Some ([] @ ''c.jpg'' # []) \<and> is_image_name ''c.jpg''
   \<and> fst (get_fwhr sample_batch sample_files (''noface/'' @ ''c.jpg'') False False
             ''average'' ''eyelid'') = Inl IndexError
   \<and> fst (bulk_loop sample_batch sample_files ''noface/'' [''c.jpg''] []) = Inl IndexError
   \<and> get_fwhr_bulk sample_batch sample_files ''noface/'' ''bogus''
       = (Inl IndexError, sample_files)
   \<and> listdir sample_batch ''elsewhere/'' = None
   \<and> get_fwhr_bulk sample_batch sample_files ''elsewhere/'' ''bogus''
       = (Inl OSError, sample_files)"
proof -
  have l: "listdir sample_batch ''imgs/'' = Some [''b.png'', ''notes.txt'', ''a.jpg'']"
    "listdir sample_batch ''noface/'' = Some ([] @ ''c.jpg'' # [])"
    "listdir sample_batch ''elsewhere/'' = None"
    by (simp_all add: sample_batch_def)
  have i: "is_image_name ''c.jpg''" by (simp add: is_image_name_def endswith_def)
  have g: "fst (get_fwhr sample_batch sample_files (''noface/'' @ ''c.jpg'') False False
             ''average'' ''eyelid'') = Inl IndexError"
    by (simp add: sample_batch_images)
  have a: "get_fwhr_bulk sample_batch sample_files ''imgs/'' ''bogus''
       = (Inl (ValueError (invalid_sort_message ''bogus'')), sample_files)"
    using invalid_sort_by[where sort_by = "''bogus''" and ext = sample_batch
            and folder = "''imgs/''" and fs = sample_files
            and names = "[''b.png'', ''notes.txt'', ''a.jpg'']"
            and image_data = "[(''b.png'', None), (''a.jpg'', Some (Finite 2))]"] l(1)
    by (simp add: sample_batch_loop del: bulk_loop.simps)
  have b: "get_fwhr_bulk sample_batch sample_files ''noface/'' ''bogus''
       = (Inl IndexError, sample_files)"
    using invalid_sort_by[where sort_by = "''bogus''" and ext = sample_batch
            and folder = "''noface/''" and fs = sample_files
            and pre = "[]" and f = "''c.jpg''" and post = "[]" and e' = IndexError] l(2) i g
    by simp
  have c: "get_fwhr_bulk sample_batch sample_files ''elsewhere/'' ''bogus''
       = (Inl OSError, sample_files)"
    using invalid_sort_by[where sort_by = "''bogus''" and ext = sample_batch
            and folder = "''elsewhere/''" and fs = sample_files] l(3)
    by simp
  show ?thesis using a b c l i g by (simp add: sample_batch_loop del: bulk_loop.simps)
qed

text \<open>
  Claim C8. When a batch run completes, the table it writes has exactly one row for
  each listed file whose name ends in \<open>.jpg\<close> or \<open>.png\<close> and no other row. The ratio
  of a row is what \<^verbatim>\<open>get_fwhr\<close> returns for that file with \<open>show = False\<close>,
  \<open>method = 'average'\<close> and \<open>top = 'eyelid'\<close>: for the first face found in the image,
  missing when the quality gate rejects it, and the ratio of its box otherwise.
\<close>

theorem batch_rows:
  assumes "listdir ext folder = Some names"
    and "get_fwhr_bulk ext fs folder sort_by = (Inr (), fs')"
  shows "\<exists>rows. fs' = fs(csv_path folder \<mapsto> CsvTable [''Filename'', ''Ratio''] rows)
           \<and> mset (map fst rows) = mset (filter is_image_name names)
           \<and> (\<forall>(f, r) \<in> set rows.
                 get_fwhr ext fs (folder @ f) False False ''average'' ''eyelid'' = (Inr r, fs)
                 \<and> (\<exists>img lm rest. load_image_file ext fs (folder @ f) = Inr img
                       \<and> raw_face_landmarks ext img = lm # rest \<and> gate_ratio lm = Inr r))"
proof -
  from get_fwhr_bulk_rows[OF assms] obtain image_data where
    loop: "bulk_loop ext fs folder names [] = (Inr image_data, fs)" and
    fs': "fs' = to_csv fs (csv_path folder)
                  (if sort_by = ''filename'' then sort_by_filename image_data
                   else sort_by_ratio image_data)"
    by blast
  define rows where "rows = (if sort_by = ''filename'' then sort_by_filename image_data
                             else sort_by_ratio image_data)"
  have m: "mset rows = mset image_data"
    by (simp add: rows_def sort_by_filename_def sort_by_ratio_def)
  then have s: "set rows = set image_data" by (rule mset_eq_setD)
  from bulk_loop_rows[OF loop] have
    names: "map fst image_data = filter is_image_name names" and
    each: "\<forall>(f, r) \<in> set image_data.
             get_fwhr ext fs (folder @ f) False False ''average'' ''eyelid'' = (Inr r, fs)"
    by auto
  have "mset (map fst rows) = mset (map fst image_data)"
    using m by (metis mset_map)
  then have "mset (map fst rows) = mset (filter is_image_name names)"
    by (simp add: names)
  moreover have "\<forall>(f, r) \<in> set rows.
      get_fwhr ext fs (folder @ f) False False ''average'' ''eyelid'' = (Inr r, fs)
      \<and> (\<exists>img lm rest. load_image_file ext fs (folder @ f) = Inr img
            \<and> raw_face_landmarks ext img = lm # rest \<and> gate_ratio lm = Inr r)"
    using each get_fwhr_batch_Inr(2) unfolding s by fastforce
  moreover have "fs' = fs(csv_path folder \<mapsto> CsvTable [''Filename'', ''Ratio''] rows)"
    by (simp add: fs' rows_def to_csv_def)
  ultimately show ?thesis by blast
qed

theorem batch_rows_witness:
  "listdir sample_batch ''imgs/'' = Some [''b.png'', ''notes.txt'', ''a.jpg'']
   \<and> get_fwhr_bulk sample_batch sample_files ''imgs/'' ''filename''
       = (Inr (), sample_files(''imgs/fwhr_ratios.csv'' \<mapsto>
            CsvTable [''Filename'', ''Ratio''] [(''a.jpg'', Some (Finite 2)), (''b.png'', None)]))
   \<and> filter is_image_name [''b.png'', ''notes.txt'', ''a.jpg''] = [''b.png'', ''a.jpg'']
   \<and> gate_ratio sample_points = Inr (Some (Finite 2))
   \<and> gate_ratio (sample_points[30 := (108, 90)]) = Inr None
   \<and> (\<exists>rows. sample_files(''imgs/fwhr_ratios.csv'' \<mapsto>
            CsvTable [''Filename'', ''Ratio''] [(''a.jpg'', Some (Finite 2)), (''b.png'', None)])
          = sample_files(csv_path ''imgs/'' \<mapsto> CsvTable [''Filename'', ''Ratio''] rows)
        \<and> mset (map fst rows) = mset (filter is_image_name [''b.png'', ''notes.txt'', ''a.jpg'']))"
proof -
  have l: "listdir sample_batch ''imgs/'' = Some [''b.png'', ''notes.txt'', ''a.jpg'']"
    by (simp add: sample_batch_def)
  have r: "get_fwhr_bulk sample_batch sample_files ''imgs/'' ''filename''
       = (Inr (), sample_files(''imgs/fwhr_ratios.csv'' \<mapsto>
            CsvTable [''Filename'', ''Ratio''] [(''a.jpg'', Some (Finite 2)), (''b.png'', None)]))"
    by (simp add: get_fwhr_bulk_def l sample_batch_loop sample_rows_sorted to_csv_def csv_path_def
          del: bulk_loop.simps)
  from batch_rows[OF l r] have
    "\<exists>rows. sample_files(''imgs/fwhr_ratios.csv'' \<mapsto>
            CsvTable [''Filename'', ''Ratio''] [(''a.jpg'', Some (Finite 2)), (''b.png'', None)])
          = sample_files(csv_path ''imgs/'' \<mapsto> CsvTable [''Filename'', ''Ratio''] rows)
        \<and> mset (map fst rows) = mset (filter is_image_name [''b.png'', ''notes.txt'', ''a.jpg''])"
    by blast
  then show ?thesis
    using l r by (simp add: gate_ratio_sample gate_ratio_tilted is_image_name_def endswith_def)
qed

end
